theory Spec2Isabelle
  imports Complex_Main
begin

section \<open>Characters and Python string operations\<close>

text \<open>
  The metadata engine of the archive (\<^verbatim>\<open>app/services/metadata.py\<close>) works on Python
  \<^verbatim>\<open>str\<close> values. A text is modelled as a \<^typ>\<open>string\<close>, one \<^typ>\<open>char\<close> per code
  point, so the model covers the code points below 256 (ASCII and Latin-1). The character
  classes below are Python's on these code points. Two capitals leave the range: the
  capital of 0xB5 is U+039C and the capital of 0xFF is U+0178; the model keeps the two
  characters as they are, which no comparison of the program can tell apart, since no
  keyword and no pattern of it contains any of the four code points.
\<close>

text \<open>The ranges \<^verbatim>\<open>0-9\<close>, \<^verbatim>\<open>A-Z\<close> and \<^verbatim>\<open>a-z\<close> of a pattern; the first is also the
  class \<^verbatim>\<open>\d\<close> on the code points below 256.\<close>

definition is_digit :: "char \<Rightarrow> bool" where
  "is_digit c = (c \<in> set ''0123456789'')"

definition is_upper :: "char \<Rightarrow> bool" where
  "is_upper c = (c \<in> set ''ABCDEFGHIJKLMNOPQRSTUVWXYZ'')"

definition is_lower :: "char \<Rightarrow> bool" where
  "is_lower c = (c \<in> set ''abcdefghijklmnopqrstuvwxyz'')"

text \<open>A range of code points.\<close>

definition between :: "nat \<Rightarrow> nat \<Rightarrow> char \<Rightarrow> bool" where
  "between lo hi c = (lo \<le> of_char c \<and> of_char c \<le> hi)"

text \<open>Capital and small letters as \<^verbatim>\<open>str.isupper\<close> and \<^verbatim>\<open>str.islower\<close> see them: the
  ASCII letters, the Latin-1 capitals 0xC0 to 0xDE without the sign 0xD7, and the Latin-1
  small letters 0xDF to 0xFF without the sign 0xF7, with the ordinal indicators 0xAA and
  0xBA and the micro sign 0xB5.\<close>

definition is_capital :: "char \<Rightarrow> bool" where
  "is_capital c = (is_upper c \<or> between 0xC0 0xD6 c \<or> between 0xD8 0xDE c)"

definition is_small :: "char \<Rightarrow> bool" where
  "is_small c = (is_lower c \<or> c \<in> set [CHR 0xAA, CHR 0xB5, CHR 0xBA]
                  \<or> between 0xDF 0xF6 c \<or> between 0xF8 0xFF c)"

text \<open>White space as \<^verbatim>\<open>str.isspace\<close>, \<^verbatim>\<open>str.strip()\<close>, \<^verbatim>\<open>str.split()\<close> and the
  pattern \<^verbatim>\<open>\s\<close> see it: blank, TAB, LF, VT, FF, CR, the separators 0x1C to 0x1F, the
  next-line control 0x85 and the no-break space 0xA0.\<close>

definition is_space :: "char \<Rightarrow> bool" where
  "is_space c = (c \<in> set [CHR '' '', CHR 0x09, CHR 0x0A, CHR 0x0B, CHR 0x0C, CHR 0x0D,
                          CHR 0x1C, CHR 0x1D, CHR 0x1E, CHR 0x1F, CHR 0x85, CHR 0xA0])"

text \<open>\<^verbatim>\<open>str.isalpha\<close> on one character; these are also the cased characters.\<close>

definition is_alpha :: "char \<Rightarrow> bool" where
  "is_alpha c = (is_small c \<or> is_capital c)"

text \<open>\<^verbatim>\<open>str.isdigit\<close> on one character: the digits and the superscripts 0xB2, 0xB3
  and 0xB9.\<close>

definition is_digit_like :: "char \<Rightarrow> bool" where
  "is_digit_like c = (is_digit c \<or> c \<in> set [CHR 0xB2, CHR 0xB3, CHR 0xB9])"

text \<open>A word character of the pattern \<^verbatim>\<open>\w\<close> (and of \<^verbatim>\<open>\b\<close>): a letter, a digit or
  superscript, one of the fractions 0xBC to 0xBE, or the underscore.\<close>

definition is_word :: "char \<Rightarrow> bool" where
  "is_word c = (is_alpha c \<or> is_digit_like c \<or> between 0xBC 0xBE c \<or> c = CHR ''_'')"

text \<open>Line boundaries of \<^verbatim>\<open>str.splitlines\<close>: LF, CR (and CR LF as one), VT, FF,
  0x1C, 0x1D, 0x1E and 0x85.\<close>

definition is_linebreak :: "char \<Rightarrow> bool" where
  "is_linebreak c = (c \<in> set [CHR 0x0A, CHR 0x0D, CHR 0x0B, CHR 0x0C, CHR 0x1C, CHR 0x1D, CHR 0x1E,
                              CHR 0x85])"

text \<open>The other case of one character, as the matcher uses it under \<^verbatim>\<open>IGNORECASE\<close>:
  bit 5 separates the two cases of an ASCII letter and of a Latin-1 letter. The small
  letters 0xB5, 0xDF and 0xFF have no capital of one character below 256.\<close>

definition to_lower :: "char \<Rightarrow> char" where
  "to_lower c = (if is_capital c
                 then (case c of Char b0 b1 b2 b3 b4 b5 b6 b7 \<Rightarrow> Char b0 b1 b2 b3 b4 True b6 b7)
                 else c)"

definition to_upper :: "char \<Rightarrow> char" where
  "to_upper c = (if is_lower c \<or> between 0xE0 0xF6 c \<or> between 0xF8 0xFE c
                 then (case c of Char b0 b1 b2 b3 b4 b5 b6 b7 \<Rightarrow> Char b0 b1 b2 b3 b4 False b6 b7)
                 else c)"

text \<open>\<^verbatim>\<open>str.lower\<close> and \<^verbatim>\<open>str.upper\<close>: the sharp s 0xDF becomes \<^verbatim>\<open>SS\<close> in capitals.\<close>

definition lower :: "string \<Rightarrow> string" where
  "lower s = map to_lower s"

definition upper :: "string \<Rightarrow> string" where
  "upper s = concat (map (\<lambda>c. if c = CHR 0xDF then ''SS'' else [to_upper c]) s)"


text \<open>\<^verbatim>\<open>s.startswith(p)\<close> and \<^verbatim>\<open>p in s\<close>.\<close>

fun startswith :: "string \<Rightarrow> string \<Rightarrow> bool" where
  "startswith s [] = True"
| "startswith [] (p # ps) = False"
| "startswith (c # cs) (p # ps) = (c = p \<and> startswith cs ps)"

fun contains :: "string \<Rightarrow> string \<Rightarrow> bool" where
  "contains [] sub = (sub = [])"
| "contains (c # cs) sub = (startswith (c # cs) sub \<or> contains cs sub)"

text \<open>\<^verbatim>\<open>s.replace(old, new)\<close>: the occurrences of \<open>old\<close> are found from the left and do
  not overlap. The counter is the number of characters of the occurrence just replaced
  that are still to be skipped.\<close>

fun replace_go :: "string \<Rightarrow> string \<Rightarrow> nat \<Rightarrow> string \<Rightarrow> string" where
  "replace_go old new n [] = []"
| "replace_go old new n (c # cs) =
     (if 0 < n then replace_go old new (n - 1) cs
      else if startswith (c # cs) old then new @ replace_go old new (length old - 1) cs
      else c # replace_go old new 0 cs)"

definition replace :: "string \<Rightarrow> string \<Rightarrow> string \<Rightarrow> string" where
  "replace old new s =
     (if old = [] then new @ concat (map (\<lambda>c. c # new) s) else replace_go old new 0 s)"

text \<open>\<^verbatim>\<open>s.strip()\<close>, \<^verbatim>\<open>s.strip(chars)\<close> and \<^verbatim>\<open>s.lstrip(chars)\<close>.\<close>

definition strip :: "string \<Rightarrow> string" where
  "strip s = rev (dropWhile is_space (rev (dropWhile is_space s)))"

definition lstrip_chars :: "string \<Rightarrow> string \<Rightarrow> string" where
  "lstrip_chars chars s = dropWhile (\<lambda>c. c \<in> set chars) s"

definition strip_chars :: "string \<Rightarrow> string \<Rightarrow> string" where
  "strip_chars chars s =
     rev (dropWhile (\<lambda>c. c \<in> set chars) (rev (dropWhile (\<lambda>c. c \<in> set chars) s)))"

text \<open>\<^verbatim>\<open>s.split()\<close>: the maximal runs of characters that are not white space.\<close>

fun split_ws_go :: "string \<Rightarrow> string \<Rightarrow> string list" where
  "split_ws_go cur [] = (if cur = [] then [] else [cur])"
| "split_ws_go cur (c # cs) =
     (if is_space c then (if cur = [] then split_ws_go [] cs else cur # split_ws_go [] cs)
      else split_ws_go (cur @ [c]) cs)"

definition split_ws :: "string \<Rightarrow> string list" where
  "split_ws s = split_ws_go [] s"

text \<open>\<^verbatim>\<open>s.split(maxsplit=1)\<close>: the first run, and what follows the white space after it
  when that is not empty.\<close>

definition split_ws_max1 :: "string \<Rightarrow> string list" where
  "split_ws_max1 s =
     (let t = dropWhile is_space s in
      if t = [] then []
      else (let r = dropWhile is_space (dropWhile (\<lambda>c. \<not> is_space c) t) in
            takeWhile (\<lambda>c. \<not> is_space c) t # (if r = [] then [] else [r])))"

text \<open>\<^verbatim>\<open>s.split(c, 1)\<close> for a one-character separator that occurs in \<open>s\<close>: the text
  before the first occurrence and the text after it.\<close>

definition split_once :: "char \<Rightarrow> string \<Rightarrow> string \<times> string" where
  "split_once c s = (takeWhile (\<lambda>x. x \<noteq> c) s, drop 1 (dropWhile (\<lambda>x. x \<noteq> c) s))"

text \<open>\<^verbatim>\<open>s.rsplit(c, 1)[0]\<close>: the text before the last occurrence of \<open>c\<close>, all of \<open>s\<close>
  when there is none.\<close>

definition rsplit_head :: "char \<Rightarrow> string \<Rightarrow> string" where
  "rsplit_head c s = (if c \<in> set s then rev (drop 1 (dropWhile (\<lambda>x. x \<noteq> c) (rev s))) else s)"

text \<open>\<^verbatim>\<open>s.splitlines()\<close>: a line break ends the current line, CR LF counts once, and a
  final line break opens no further line.\<close>

fun splitlines_go :: "string \<Rightarrow> string \<Rightarrow> string list" where
  "splitlines_go cur [] = (if cur = [] then [] else [cur])"
| "splitlines_go cur [c] = (if is_linebreak c then [cur] else [cur @ [c]])"
| "splitlines_go cur (c # d # cs) =
     (if c = CHR 0x0D \<and> d = CHR 0x0A then cur # splitlines_go [] cs
      else if is_linebreak c then cur # splitlines_go [] (d # cs)
      else splitlines_go (cur @ [c]) (d # cs))"

definition splitlines :: "string \<Rightarrow> string list" where
  "splitlines s = splitlines_go [] s"

text \<open>\<^verbatim>\<open>sep.join(xs)\<close>.\<close>

fun join :: "string \<Rightarrow> string list \<Rightarrow> string" where
  "join sep [] = []"
| "join sep [x] = x"
| "join sep (x # y # xs) = x @ sep @ join sep (y # xs)"

text \<open>\<^verbatim>\<open>s.isupper()\<close>, \<^verbatim>\<open>s.isdigit()\<close> and \<^verbatim>\<open>s.title()\<close>.\<close>

definition isupper :: "string \<Rightarrow> bool" where
  "isupper s = ((\<exists>c \<in> set s. is_capital c) \<and> \<not> (\<exists>c \<in> set s. is_small c))"

definition isdigit :: "string \<Rightarrow> bool" where
  "isdigit s = (s \<noteq> [] \<and> list_all is_digit_like s)"

fun title_go :: "bool \<Rightarrow> string \<Rightarrow> string" where
  "title_go prev [] = []"
| "title_go prev (c # cs) =
     (if is_alpha c
      then (if prev then [to_lower c] else if c = CHR 0xDF then ''Ss'' else [to_upper c])
             @ title_go True cs
      else c # title_go False cs)"

definition title :: "string \<Rightarrow> string" where
  "title s = title_go False s"

text \<open>\<^verbatim>\<open>int(s)\<close> on a string of decimal digits, and the digits of \<^verbatim>\<open>str(n)\<close>.\<close>

definition digit_table :: "(char \<times> nat) list" where
  "digit_table = zip ''0123456789'' [0, 1, 2, 3, 4, 5, 6, 7, 8, 9]"

definition digit_val :: "char \<Rightarrow> nat" where
  "digit_val c = (case map_of digit_table c of None \<Rightarrow> 0 | Some n \<Rightarrow> n)"

definition int_of_digits :: "string \<Rightarrow> nat" where
  "int_of_digits s = foldl (\<lambda>n c. 10 * n + digit_val c) 0 s"

definition digit_char :: "nat \<Rightarrow> char" where
  "digit_char d = (''0123456789'' ! (d mod 10))"

function str_of_nat :: "nat \<Rightarrow> string" where
  "str_of_nat n = (if n < 10 then [digit_char n] else str_of_nat (n div 10) @ [digit_char n])"
  by pat_completeness auto
termination
  by (relation "measure (\<lambda>n. n)") auto

definition str_of_int :: "int \<Rightarrow> string" where
  "str_of_int i = (if i < 0 then CHR ''-'' # str_of_nat (nat (- i)) else str_of_nat (nat i))"


section \<open>Regular expressions\<close>

text \<open>
  The patterns of the source are values of the type \<open>regex\<close>, written after the pattern
  text, and are run by a backtracking matcher that tries the alternatives in the order of
  Python's \<^verbatim>\<open>re\<close> module: the left branch of \<^verbatim>\<open>|\<close> first, a greedy repetition at its
  longest first. Every repetition in the patterns of the source repeats one character or
  one character class, so \<open>Rep\<close> takes an \<open>atom\<close>:
  \<open>Rep 0 None a\<close> is \<^verbatim>\<open>a*\<close>, \<open>Rep 1 None a\<close> is \<^verbatim>\<open>a+\<close>, \<open>Rep 0 (Some 1) a\<close> is \<^verbatim>\<open>a?\<close> and
  \<open>Rep m (Some n) a\<close> is \<^verbatim>\<open>a{m,n}\<close>.
\<close>

datatype citem =
    C char      \<comment> \<open>one character\<close>
  | AZ          \<comment> \<open>\<^verbatim>\<open>A-Z\<close>\<close>
  | Az          \<comment> \<open>\<^verbatim>\<open>a-z\<close>\<close>
  | D09         \<comment> \<open>\<^verbatim>\<open>0-9\<close> and \<^verbatim>\<open>\d\<close>\<close>
  | WS          \<comment> \<open>\<^verbatim>\<open>\s\<close>\<close>
  | WD          \<comment> \<open>\<^verbatim>\<open>\w\<close>\<close>

datatype atom =
    Lit char              \<comment> \<open>a literal character\<close>
  | Cls "citem list"      \<comment> \<open>\<^verbatim>\<open>[...]\<close>\<close>
  | NCls "citem list"     \<comment> \<open>\<^verbatim>\<open>[^...]\<close>\<close>
  | Dot                   \<comment> \<open>\<^verbatim>\<open>.\<close>\<close>

datatype regex =
    Eps
  | One atom
  | Bol                               \<comment> \<open>\<^verbatim>\<open>^\<close>\<close>
  | Eol                               \<comment> \<open>\<^verbatim>\<open>$\<close>\<close>
  | WordB                             \<comment> \<open>\<^verbatim>\<open>\b\<close>\<close>
  | Seq regex regex
  | Alt regex regex
  | Rep nat "nat option" atom
  | Grp nat regex                     \<comment> \<open>capturing group number \<open>n\<close>\<close>

fun in_item :: "citem \<Rightarrow> char \<Rightarrow> bool" where
  "in_item (C x) c = (c = x)"
| "in_item AZ c = is_upper c"
| "in_item Az c = is_lower c"
| "in_item D09 c = is_digit c"
| "in_item WS c = is_space c"
| "in_item WD c = is_word c"

text \<open>Under \<^verbatim>\<open>IGNORECASE\<close> (the flag \<open>ic\<close>) a character matches when one of its cases
  does.\<close>

definition in_class :: "bool \<Rightarrow> citem list \<Rightarrow> char \<Rightarrow> bool" where
  "in_class ic items c =
     (list_ex (\<lambda>i. in_item i c) items \<or>
      (ic \<and> (list_ex (\<lambda>i. in_item i (to_lower c)) items \<or>
             list_ex (\<lambda>i. in_item i (to_upper c)) items)))"

text \<open>The flag \<open>ds\<close> is \<^verbatim>\<open>DOTALL\<close>: without it the dot matches no line feed.\<close>

fun atom_ok :: "bool \<Rightarrow> bool \<Rightarrow> atom \<Rightarrow> char \<Rightarrow> bool" where
  "atom_ok ic ds (Lit x) c = (c = x \<or> (ic \<and> to_lower c = to_lower x))"
| "atom_ok ic ds (Cls items) c = in_class ic items c"
| "atom_ok ic ds (NCls items) c = (\<not> in_class ic items c)"
| "atom_ok ic ds Dot c = (ds \<or> c \<noteq> CHR 0x0A)"

type_synonym captures = "(nat \<times> string) list"

text \<open>
  The matcher is written with a continuation: \<open>k\<close> receives the character before the
  current position, the text that is left and the groups captured so far, and answers
  \<open>None\<close> to ask for the next alternative. \<open>rep_m\<close> is the greedy repetition of a
  one-character test between \<open>mn\<close> and \<open>mx\<close> times.
\<close>

fun rep_m :: "(char \<Rightarrow> bool) \<Rightarrow> nat \<Rightarrow> nat option \<Rightarrow> char option \<Rightarrow> string \<Rightarrow> captures \<Rightarrow>
    (char option \<Rightarrow> string \<Rightarrow> captures \<Rightarrow> 'a option) \<Rightarrow> 'a option" where
  "rep_m t mn mx p [] g k = (if mn = 0 then k p [] g else None)"
| "rep_m t mn mx p (c # cs) g k =
     (if mx = Some 0 \<or> \<not> t c then (if mn = 0 then k p (c # cs) g else None)
      else (case rep_m t (mn - 1) (map_option (\<lambda>n. n - 1) mx) (Some c) cs g k of
              Some r \<Rightarrow> Some r
            | None \<Rightarrow> (if mn = 0 then k p (c # cs) g else None)))"

definition word_before :: "char option \<Rightarrow> bool" where
  "word_before p = (case p of None \<Rightarrow> False | Some c \<Rightarrow> is_word c)"

definition word_after :: "string \<Rightarrow> bool" where
  "word_after s = (case s of [] \<Rightarrow> False | c # cs \<Rightarrow> is_word c)"

fun rmatch :: "bool \<Rightarrow> bool \<Rightarrow> regex \<Rightarrow> char option \<Rightarrow> string \<Rightarrow> captures \<Rightarrow>
    (char option \<Rightarrow> string \<Rightarrow> captures \<Rightarrow> 'a option) \<Rightarrow> 'a option" where
  "rmatch ic ds Eps p s g k = k p s g"
| "rmatch ic ds (One a) p s g k =
     (case s of [] \<Rightarrow> None | c # cs \<Rightarrow> if atom_ok ic ds a c then k (Some c) cs g else None)"
| "rmatch ic ds Bol p s g k = (if p = None then k p s g else None)"
| "rmatch ic ds Eol p s g k = (if s = [] \<or> s = [CHR 0x0A] then k p s g else None)"
| "rmatch ic ds WordB p s g k = (if word_before p \<noteq> word_after s then k p s g else None)"
| "rmatch ic ds (Seq a b) p s g k = rmatch ic ds a p s g (\<lambda>p' s' g'. rmatch ic ds b p' s' g' k)"
| "rmatch ic ds (Alt a b) p s g k =
     (case rmatch ic ds a p s g k of Some r \<Rightarrow> Some r | None \<Rightarrow> rmatch ic ds b p s g k)"
| "rmatch ic ds (Rep mn mx a) p s g k = rep_m (atom_ok ic ds a) mn mx p s g k"
| "rmatch ic ds (Grp n r) p s g k =
     rmatch ic ds r p s g (\<lambda>p' s' g'. k p' s' ((n, take (length s - length s') s) # g'))"

text \<open>A match: the text before it, the matched text, the text after it, the groups.
  \<open>group\<close> is \<^verbatim>\<open>m.group(n)\<close>, \<open>None\<close> for a group that took no part in the match.\<close>

type_synonym rx_match = "string \<times> string \<times> string \<times> captures"

definition m_before :: "rx_match \<Rightarrow> string" where
  "m_before m = fst m"

definition m_text :: "rx_match \<Rightarrow> string" where
  "m_text m = fst (snd m)"

definition m_after :: "rx_match \<Rightarrow> string" where
  "m_after m = fst (snd (snd m))"

definition group :: "rx_match \<Rightarrow> nat \<Rightarrow> string option" where
  "group m n = map_of (snd (snd (snd m))) n"

definition match_at :: "bool \<Rightarrow> bool \<Rightarrow> regex \<Rightarrow> string \<Rightarrow> char option \<Rightarrow> string \<Rightarrow> rx_match option" where
  "match_at ic ds r bef p s =
     (case rmatch ic ds r p s [] (\<lambda>p' s' g'. Some (s', g')) of
        None \<Rightarrow> None
      | Some (s', g) \<Rightarrow> Some (rev bef, take (length s - length s') s, s', g))"

text \<open>\<^verbatim>\<open>re.match\<close> tries the start of the text only; \<^verbatim>\<open>re.search\<close> tries every position
  from the left and keeps the first match.\<close>

definition re_match :: "bool \<Rightarrow> bool \<Rightarrow> regex \<Rightarrow> string \<Rightarrow> rx_match option" where
  "re_match ic ds r s = match_at ic ds r [] None s"

fun search_go :: "bool \<Rightarrow> bool \<Rightarrow> regex \<Rightarrow> string \<Rightarrow> char option \<Rightarrow> string \<Rightarrow> rx_match option" where
  "search_go ic ds r bef p [] = match_at ic ds r bef p []"
| "search_go ic ds r bef p (c # cs) =
     (case match_at ic ds r bef p (c # cs) of
        Some m \<Rightarrow> Some m
      | None \<Rightarrow> search_go ic ds r (c # bef) (Some c) cs)"

definition re_search :: "bool \<Rightarrow> bool \<Rightarrow> regex \<Rightarrow> string \<Rightarrow> rx_match option" where
  "re_search ic ds r s = search_go ic ds r [] None s"

text \<open>\<^verbatim>\<open>re.sub(pattern, repl, s)\<close>: the matches are replaced from the left and do not
  overlap; \<open>f\<close> builds the replacement from the match. The counter is the number of
  characters of the last match still to be skipped. After an empty match the next
  character is copied.\<close>

fun sub_go :: "bool \<Rightarrow> bool \<Rightarrow> regex \<Rightarrow> (rx_match \<Rightarrow> string) \<Rightarrow> nat \<Rightarrow> char option \<Rightarrow> string \<Rightarrow> string" where
  "sub_go ic ds r f n p [] =
     (if 0 < n then []
      else (case match_at ic ds r [] p [] of None \<Rightarrow> [] | Some m \<Rightarrow> f m))"
| "sub_go ic ds r f n p (c # cs) =
     (if 0 < n then sub_go ic ds r f (n - 1) (Some c) cs
      else (case match_at ic ds r [] p (c # cs) of
              None \<Rightarrow> c # sub_go ic ds r f 0 (Some c) cs
            | Some m \<Rightarrow>
                (if m_text m = [] then f m @ c # sub_go ic ds r f 0 (Some c) cs
                 else f m @ sub_go ic ds r f (length (m_text m) - 1) (Some c) cs)))"

definition re_sub :: "bool \<Rightarrow> bool \<Rightarrow> regex \<Rightarrow> (rx_match \<Rightarrow> string) \<Rightarrow> string \<Rightarrow> string" where
  "re_sub ic ds r f s = sub_go ic ds r f 0 None s"

text \<open>Pattern text: a run of literal characters, and a sequence of patterns.\<close>

fun lits :: "string \<Rightarrow> regex" where
  "lits [] = Eps"
| "lits [c] = One (Lit c)"
| "lits (c # d # cs) = Seq (One (Lit c)) (lits (d # cs))"

fun seqs :: "regex list \<Rightarrow> regex" where
  "seqs [] = Eps"
| "seqs [r] = r"
| "seqs (r # q # rs) = Seq r (seqs (q # rs))"

fun alts :: "regex list \<Rightarrow> regex" where
  "alts [] = Eps"
| "alts [r] = r"
| "alts (r # q # rs) = Alt r (alts (q # rs))"

abbreviation Star :: "atom \<Rightarrow> regex" where
  "Star a \<equiv> Rep 0 None a"

abbreviation Plus :: "atom \<Rightarrow> regex" where
  "Plus a \<equiv> Rep 1 None a"

abbreviation Opt :: "atom \<Rightarrow> regex" where
  "Opt a \<equiv> Rep 0 (Some 1) a"

abbreviation LF :: char where "LF \<equiv> CHR 0x0A"
abbreviation CR :: char where "CR \<equiv> CHR 0x0D"
abbreviation TAB :: char where "TAB \<equiv> CHR 0x09"
abbreviation BSL :: char where "BSL \<equiv> CHR 0x5C"
abbreviation APO :: char where "APO \<equiv> CHR 0x27"
abbreviation DQ :: char where "DQ \<equiv> CHR 0x22"
abbreviation BQ :: char where "BQ \<equiv> CHR 0x60"

text \<open>The text of a group in a replacement template (\<^verbatim>\<open>\1\<close>): empty for a group that
  took no part.\<close>

definition grp :: "rx_match \<Rightarrow> nat \<Rightarrow> string" where
  "grp m n = (case group m n of None \<Rightarrow> [] | Some s \<Rightarrow> s)"

section \<open>Text normalizer and label blocks (\<^verbatim>\<open>app/services/metadata.py\<close>)\<close>

definition LABEL_ALIASES :: "(string \<times> string list) list" where
  "LABEL_ALIASES =
     [(''nomor'', [''nomor'', ''no'', ''nomer'', ''nemor'']),
      (''perihal'', [''perihal'', ''hal'']),
      (''lampiran'', [''lampiran'']),
      (''sifat'', [''sifat''])]"

definition HEADER_KEYWORDS :: "string list" where
  "HEADER_KEYWORDS = [''PEMERINTAH'', ''DINAS'', ''KELURAHAN'', ''KECAMATAN'', ''KOTA'',
     ''KEMENTERIAN'', ''BADAN'', ''DEWAN'', ''SEKRETARIAT'', ''PT'', ''CV'', ''YAYASAN'']"

subsection \<open>\<^verbatim>\<open>_clean_text\<close>\<close>

definition replacements :: "(string \<times> string) list" where
  "replacements =
     [(''/-'', ''-''), (''I/'', ''/''), (''|/'', ''/''), ([BSL, CHR '' '', CHR ''/''], []),
      (''OS '' @ [APO, CHR ''/''], ''05 /''), (''OB '' @ [APO, CHR ''/''], ''08 /''),
      (''OI '' @ [APO, CHR ''/''], ''01 /''), (''O5 '' @ [APO, CHR ''/''], ''05 /'')]"

text \<open>\<^verbatim>\<open>(\d)\\\s*/\<close>\<close>

definition rx_digit_backslash :: regex where
  "rx_digit_backslash =
     seqs [Grp 1 (One (Cls [D09])), One (Lit BSL), Star (Cls [WS]), One (Lit CHR ''/'')]"

text \<open>\<^verbatim>\<open>(\d{2,3})\s*'\s*/\<close>\<close>

definition rx_apostrophe :: regex where
  "rx_apostrophe =
     seqs [Grp 1 (Rep 2 (Some 3) (Cls [D09])), Star (Cls [WS]), One (Lit APO), Star (Cls [WS]),
           One (Lit CHR ''/'')]"

text \<open>\<^verbatim>\<open>\b[A-Z0-9Ol]{1,8}[\-\/\.][A-Z0-9Ol\.\-\/]{2,}\b\<close>, with \<^verbatim>\<open>IGNORECASE\<close>\<close>

definition rx_fix_nomor :: regex where
  "rx_fix_nomor =
     seqs [WordB, Rep 1 (Some 8) (Cls [AZ, D09, C CHR ''O'', C CHR ''l'']),
           One (Cls [C CHR ''-'', C CHR ''/'', C CHR ''.'']),
           Rep 2 None (Cls [AZ, D09, C CHR ''O'', C CHR ''l'', C CHR ''.'', C CHR ''-'', C CHR ''/'']),
           WordB]"

definition fix_nomor :: "rx_match \<Rightarrow> string" where
  "fix_nomor m = replace ''l'' ''1'' (replace ''O'' ''0'' (m_text m))"

text \<open>\<^verbatim>\<open>[ \t]+\<close> and \<^verbatim>\<open>\n\s*\n\s*\n+\<close>\<close>

definition rx_blanks :: regex where
  "rx_blanks = Plus (Cls [C CHR '' '', C TAB])"

definition rx_blank_lines :: regex where
  "rx_blank_lines =
     seqs [One (Lit LF), Star (Cls [WS]), One (Lit LF), Star (Cls [WS]), Plus (Lit LF)]"

definition clean_text :: "string \<Rightarrow> string" where
  "clean_text text =
     (if text = [] then []
      else
        (let t = foldl (\<lambda>t (old, new). replace old new t) text replacements;
             t = re_sub False False rx_digit_backslash (\<lambda>m. grp m 1 @ ''/'') t;
             t = re_sub False False rx_apostrophe (\<lambda>m. grp m 1 @ '' /'') t;
             t = re_sub True False rx_fix_nomor fix_nomor t;
             t = re_sub False False rx_blanks (\<lambda>m. '' '') t;
             t = re_sub False False rx_blank_lines (\<lambda>m. [LF, LF]) t
         in strip t))"

subsection \<open>\<^verbatim>\<open>_normalize_line\<close>, \<^verbatim>\<open>_is_label_line\<close>, \<^verbatim>\<open>_filtered_label_value\<close>\<close>

definition normalize_line :: "string option \<Rightarrow> string option" where
  "normalize_line value =
     (case value of
        None \<Rightarrow> None
      | Some v \<Rightarrow>
          if v = [] then None
          else (let cleaned = strip_chars '' :-'' (re_sub False False (Plus (Cls [WS])) (\<lambda>m. '' '') v)
                in if cleaned = [] then None
                   else if isupper cleaned then Some (title cleaned)
                   else Some cleaned))"

definition is_label_line :: "string \<Rightarrow> string option" where
  "is_label_line line =
     (let label_part = (if CHR '':'' \<in> set line then fst (split_once CHR '':'' line) else line);
          lowered = strip_chars '' :.-'' (lower label_part)
      in map_option fst (find (\<lambda>(key, aliases). lowered \<in> set aliases) LABEL_ALIASES))"

definition blacklist_words :: "string list" where
  "blacklist_words = [''sifat'', ''biasa'', ''penting'', ''segera'', ''rahasia'', ''lampiran'',
     ''hal'', ''perihal'', ''kepada'', ''yth'', ''tanggal'', ''tembusan'', ''dari'']"

text \<open>\<^verbatim>\<open>\d+[/\-][A-Za-z0-9]\<close> and \<^verbatim>\<open>^\d\<close>\<close>

definition rx_nomor_shape :: regex where
  "rx_nomor_shape =
     seqs [Plus (Cls [D09]), One (Cls [C CHR ''/'', C CHR ''-'']), One (Cls [AZ, Az, D09])]"

definition rx_starts_digit :: regex where
  "rx_starts_digit = Seq Bol (One (Cls [D09]))"

definition filtered_label_value :: "string option \<Rightarrow> string \<Rightarrow> string option" where
  "filtered_label_value value label_key =
     (case value of
        None \<Rightarrow> None
      | Some v \<Rightarrow>
          if v = [] then None
          else if label_key = ''nomor'' then
            (if strip (lower v) \<in> set blacklist_words then None
             else if re_search False False rx_nomor_shape v = None then None
             else if re_match False False rx_starts_digit v = None then None
             else Some v)
          else Some v)"

subsection \<open>\<^verbatim>\<open>_find_label_value\<close>\<close>

text \<open>\<^verbatim>\<open>(?i)^(kepada|yth|dengan|sehubungan)\<close>\<close>

definition rx_recipient_start :: regex where
  "rx_recipient_start =
     Seq Bol (Grp 1 (alts [lits ''kepada'', lits ''yth'', lits ''dengan'', lits ''sehubungan'']))"

text \<open>The continuation lines of a subject: the loop over the next four lines stops at an
  empty line, at a label line and at the start of the recipient block.\<close>

fun collect_lines :: "string list \<Rightarrow> string list" where
  "collect_lines [] = []"
| "collect_lines (l # ls) =
     (let next_line = strip l in
      if next_line = [] then []
      else if is_label_line next_line \<noteq> None then []
      else if re_match True False rx_recipient_start next_line \<noteq> None then []
      else next_line # collect_lines ls)"

definition first_token :: "string \<Rightarrow> string" where
  "first_token value = (case split_ws value of [] \<Rightarrow> value | t # ts \<Rightarrow> t)"

text \<open>The second strategy: the label stands alone and the value is on one of the next two
  lines. \<open>js\<close> are the line numbers still to try.\<close>

fun next_line_value :: "string list \<Rightarrow> string \<Rightarrow> nat list \<Rightarrow> string option" where
  "next_line_value lines label_key [] = None"
| "next_line_value lines label_key (j # js) =
     (if length lines \<le> j then None
      else
        (let candidate = strip (lines ! j) in
         if candidate = [] then next_line_value lines label_key js
         else if is_label_line candidate \<noteq> None then None
         else if startswith candidate '':'' then
           (let value = strip (drop 1 candidate) in
            if label_key = ''perihal'' \<and> value \<noteq> [] then
              filtered_label_value
                (normalize_line (Some (join '' '' (value # collect_lines (take 4 (drop (j + 1) lines))))))
                label_key
            else if label_key = ''nomor'' \<and> value \<noteq> [] then
              filtered_label_value (Some (first_token value)) label_key
            else filtered_label_value (normalize_line (Some value)) label_key)
         else filtered_label_value (normalize_line (Some candidate)) label_key))"

text \<open>The first strategy is the value after the colon on the label's own line. A number
  that the filter rejects there falls through to the second strategy.\<close>

definition find_label_value :: "string list \<Rightarrow> nat \<Rightarrow> string \<Rightarrow> string option" where
  "find_label_value lines idx label_key =
     (let current = lines ! idx;
          value = (if CHR '':'' \<in> set current then strip (snd (split_once CHR '':'' current)) else []);
          below = next_line_value lines label_key [idx + 1, idx + 2]
      in
        if CHR '':'' \<in> set current \<and> value \<noteq> [] then
          (if label_key = ''perihal'' then
             filtered_label_value
               (normalize_line (Some (join '' '' (value # collect_lines (take 4 (drop (idx + 1) lines))))))
               label_key
           else if label_key = ''nomor'' then
             (case filtered_label_value (Some (first_token value)) label_key of
                Some filtered \<Rightarrow> Some filtered
              | None \<Rightarrow> below)
           else filtered_label_value (normalize_line (Some value)) label_key)
        else below)"

subsection \<open>\<^verbatim>\<open>extract_label_block_values\<close>\<close>

text \<open>The dictionary of the values found; a later label line overwrites an earlier one
  with the same key.\<close>

definition nonblank_lines :: "string \<Rightarrow> string list" where
  "nonblank_lines text = map strip (filter (\<lambda>ln. strip ln \<noteq> []) (splitlines text))"

definition label_step :: "string list \<Rightarrow> nat \<times> string \<Rightarrow> (string \<rightharpoonup> string) \<Rightarrow> (string \<rightharpoonup> string)" where
  "label_step lines il values =
     (case is_label_line (snd il) of
        None \<Rightarrow> values
      | Some label_key \<Rightarrow>
          (case find_label_value lines (fst il) label_key of
             None \<Rightarrow> values
           | Some value \<Rightarrow> values(label_key \<mapsto> value)))"

definition extract_label_block_values :: "string \<Rightarrow> (string \<rightharpoonup> string)" where
  "extract_label_block_values text =
     (let lines = nonblank_lines text
      in fold (label_step lines) (enumerate 0 lines) Map.empty)"

section \<open>Number extractor: \<^verbatim>\<open>extract_nomor_surat\<close>\<close>

text \<open>The pre-cleaning shared by the number and the subject extractor: the quote
  characters of \<^verbatim>\<open>quote_map\<close> become blanks (of its seven code points the grave accent
  0x60 and the acute accent 0xB4 lie below 256), then six literal repairs.\<close>

definition translate_quotes :: "string \<Rightarrow> string" where
  "translate_quotes s = map (\<lambda>c. if c = BQ \<or> c = CHR 0xB4 then CHR '' '' else c) s"

definition preclean :: "string \<Rightarrow> string" where
  "preclean text =
     (let t = translate_quotes text;
          t = replace ''OS  /'' ''05 /'' t;
          t = replace ''OB  /'' ''08 /'' t;
          t = replace ''OI  /'' ''01 /'' t;
          t = replace ''OS /'' ''05 /'' t;
          t = replace ''OB /'' ''08 /'' t;
          t = replace ''OI /'' ''01 /'' t
      in t)"

type_synonym candidate = "string \<times> nat"

subsection \<open>Priority 1: the label block, weight 100\<close>

text \<open>\<^verbatim>\<open>^[:\-\s]+\<close>, and the separators \<^verbatim>\<open>[/\-.]\<close> of the validity test\<close>

definition rx_lead_punct :: regex where
  "rx_lead_punct = Seq Bol (Plus (Cls [C CHR '':'', C CHR ''-'', WS]))"

definition label_candidates :: "string \<Rightarrow> candidate list" where
  "label_candidates T =
     (case extract_label_block_values T ''nomor'' of
        None \<Rightarrow> []
      | Some v \<Rightarrow>
          (let nomor_value = strip (re_sub False False rx_lead_punct (\<lambda>m. []) v);
               nomor_value = strip_chars ''.,;: '' nomor_value
           in if 3 < length nomor_value
                 \<and> re_search False False (One (Cls [D09])) nomor_value \<noteq> None
                 \<and> re_search False False (One (Cls [C CHR ''/'', C CHR ''-'', C CHR ''.''])) nomor_value \<noteq> None
              then [(nomor_value, 100)] else []))"

subsection \<open>Priority 2: patterns after the label, weight 95\<close>

definition nomor_tail :: regex where
  "nomor_tail = Plus (Cls [AZ, Az, D09, C CHR ''.'', C CHR ''/'', C CHR ''-''])"

definition label_gap :: regex where
  "label_gap = seqs [Star (Cls [WS]), Opt (Cls [C CHR '':'', C CHR ''.'']), Star (Cls [WS])]"

definition nomor_label4 :: regex where
  "nomor_label4 = Grp 1 (alts [lits ''Nomor'', lits ''No'', lits ''Nomer'', lits ''Nemor''])"

text \<open>The six patterns, in the order of the source; the flag is \<^verbatim>\<open>(?i)\<close>.
  \<^verbatim>\<open>(?i)\b(Nomor|No|Nomer|Nemor)\s*[:.]?\s*(e-\d+[/\-][A-Za-z0-9./\-]+)\<close>,
  \<^verbatim>\<open>(?i)\b(Nomor|No|Nomer|Nemor)\s*[:.]?\s*(\d+[/\-][A-Za-z0-9./\-]+)\<close>,
  \<^verbatim>\<open>(?i)\b(Nomor|No|Nomer|Nemor)\s*[:.]?\s*(\d+\s+[/\-][A-Za-z0-9./\-]+)\<close>,
  \<^verbatim>\<open>(?i)\b(Nomor|No)\s*\n\s*[:.]?\s*(\d+[/\-][A-Za-z0-9./\-]+)\<close>,
  \<^verbatim>\<open>(?i)\b(Nomor|No|Nomer)\s*[:.]?\s*([A-Z]{1,2}\s*['\\/]\s*[A-Z]{2}\.[0-9.]+)\<close>,
  \<^verbatim>\<open>\b(\d{2,3})\s*[/\-]\s*([A-Z]{2}\.[0-9.]+)\b\<close>.\<close>

definition nomor_patterns :: "(bool \<times> regex) list" where
  "nomor_patterns =
     [(True, seqs [WordB, nomor_label4, label_gap,
                   Grp 2 (seqs [lits ''e-'', Plus (Cls [D09]), One (Cls [C CHR ''/'', C CHR ''-'']),
                                nomor_tail])]),
      (True, seqs [WordB, nomor_label4, label_gap,
                   Grp 2 (seqs [Plus (Cls [D09]), One (Cls [C CHR ''/'', C CHR ''-'']), nomor_tail])]),
      (True, seqs [WordB, nomor_label4, label_gap,
                   Grp 2 (seqs [Plus (Cls [D09]), Plus (Cls [WS]), One (Cls [C CHR ''/'', C CHR ''-'']),
                                nomor_tail])]),
      (True, seqs [WordB, Grp 1 (alts [lits ''Nomor'', lits ''No'']), Star (Cls [WS]), One (Lit LF),
                   label_gap,
                   Grp 2 (seqs [Plus (Cls [D09]), One (Cls [C CHR ''/'', C CHR ''-'']), nomor_tail])]),
      (True, seqs [WordB, Grp 1 (alts [lits ''Nomor'', lits ''No'', lits ''Nomer'']), label_gap,
                   Grp 2 (seqs [Rep 1 (Some 2) (Cls [AZ]), Star (Cls [WS]),
                                One (Cls [C APO, C BSL, C CHR ''/'']), Star (Cls [WS]),
                                Rep 2 (Some 2) (Cls [AZ]), One (Lit CHR ''.''),
                                Plus (Cls [D09, C CHR ''.''])])]),
      (False, seqs [WordB, Grp 1 (Rep 2 (Some 3) (Cls [D09])), Star (Cls [WS]),
                    One (Cls [C CHR ''/'', C CHR ''-'']), Star (Cls [WS]),
                    Grp 2 (seqs [Rep 2 (Some 2) (Cls [AZ]), One (Lit CHR ''.''),
                                 Plus (Cls [D09, C CHR ''.''])]),
                    WordB])]"

text \<open>\<^verbatim>\<open>(\d+)\s+([/\-])\<close> and the date shape \<^verbatim>\<open>^\d{1,2}[-/]\d{1,2}[-/]\d{2,4}$\<close>\<close>

definition rx_digit_gap :: regex where
  "rx_digit_gap =
     seqs [Grp 1 (Plus (Cls [D09])), Plus (Cls [WS]), Grp 2 (One (Cls [C CHR ''/'', C CHR ''-'']))]"

definition rx_date_shape :: regex where
  "rx_date_shape =
     seqs [Bol, Rep 1 (Some 2) (Cls [D09]), One (Cls [C CHR ''-'', C CHR ''/'']),
           Rep 1 (Some 2) (Cls [D09]), One (Cls [C CHR ''-'', C CHR ''/'']),
           Rep 2 (Some 4) (Cls [D09]), Eol]"

text \<open>The value taken from a match. Each pattern has two groups; the second branch of the
  source is the one for an empty or absent second group, where the f-string prints an
  absent group as \<^verbatim>\<open>None\<close>.\<close>

definition pattern_value :: "rx_match \<Rightarrow> string" where
  "pattern_value m =
     (case group m 2 of
        Some g2 \<Rightarrow>
          if g2 \<noteq> [] then strip_chars ''.,;: '' (strip g2)
          else strip (grp m 1 @ ''/'' @ g2)
      | None \<Rightarrow> strip (grp m 1 @ ''/'' @ ''None''))"

definition pattern_candidate :: "string \<Rightarrow> bool \<times> regex \<Rightarrow> candidate list" where
  "pattern_candidate T pat =
     (case re_search (fst pat) False (snd pat) T of
        None \<Rightarrow> []
      | Some m \<Rightarrow>
          (let nomor = re_sub False False rx_digit_gap (\<lambda>m. grp m 1 @ grp m 2) (pattern_value m)
           in if 3 < length nomor \<and> re_match False False rx_date_shape nomor = None
              then [(nomor, 95)] else []))"

definition pattern_candidates :: "string \<Rightarrow> candidate list" where
  "pattern_candidates T = concat (map (pattern_candidate T) nomor_patterns)"

subsection \<open>Priority 3: token scan of the first 15 lines, weights 70/60 and 75/65\<close>

text \<open>\<^verbatim>\<open>^\d+[/\-][A-Za-z0-9./\-]{2,}$\<close> and \<^verbatim>\<open>(\d{2,3})\s+/\s+([A-Z]{2}\.\d{2}\.\d{2})\<close>\<close>

definition rx_token :: regex where
  "rx_token =
     seqs [Bol, Plus (Cls [D09]), One (Cls [C CHR ''/'', C CHR ''-'']),
           Rep 2 None (Cls [AZ, Az, D09, C CHR ''.'', C CHR ''/'', C CHR ''-'']), Eol]"

definition rx_multi_token :: regex where
  "rx_multi_token =
     seqs [Grp 1 (Rep 2 (Some 3) (Cls [D09])), Plus (Cls [WS]), One (Lit CHR ''/''), Plus (Cls [WS]),
           Grp 2 (seqs [Rep 2 (Some 2) (Cls [AZ]), One (Lit CHR ''.''), Rep 2 (Some 2) (Cls [D09]),
                        One (Lit CHR ''.''), Rep 2 (Some 2) (Cls [D09])])]"

definition token_candidate :: "nat \<Rightarrow> string \<Rightarrow> candidate list" where
  "token_candidate idx token =
     (if re_match False False rx_token token \<noteq> None
         \<and> re_match False False rx_date_shape token = None
      then [(strip_chars ''.,;'' token, if idx < 8 then 70 else 60)] else [])"

definition line_candidates :: "nat \<times> string \<Rightarrow> candidate list" where
  "line_candidates il =
     (let idx = fst il; l = snd il in
      if l = [] \<or> is_label_line l \<noteq> None then []
      else concat (map (token_candidate idx) (split_ws l)) @
           (case re_search False False rx_multi_token l of
              None \<Rightarrow> []
            | Some m \<Rightarrow> [(grp m 1 @ ''/'' @ grp m 2, if idx < 8 then 75 else 65)]))"

definition scan_candidates :: "string \<Rightarrow> candidate list" where
  "scan_candidates T =
     concat (map line_candidates (enumerate 0 (take 15 (map strip (splitlines T)))))"

subsection \<open>Priority 4: the file name, weight 50\<close>

text \<open>\<^verbatim>\<open>^\d+[/\-][A-Za-z0-9./\-]+$\<close>\<close>

definition rx_filename_nomor :: regex where
  "rx_filename_nomor =
     seqs [Bol, Plus (Cls [D09]), One (Cls [C CHR ''/'', C CHR ''-'']), nomor_tail, Eol]"

definition filename_candidates :: "string option \<Rightarrow> candidate list" where
  "filename_candidates filename =
     (case filename of
        None \<Rightarrow> []
      | Some fn \<Rightarrow>
          if fn = [] then []
          else (case split_ws_max1 (rsplit_head CHR ''.'' fn) of
                  [] \<Rightarrow> []
                | p0 # ps \<Rightarrow>
                    if re_match False False rx_filename_nomor p0 \<noteq> None then [(strip p0, 50)]
                    else []))"

subsection \<open>Selection\<close>

text \<open>All four strategies run and append to one list, in this order. The list is then
  sorted by weight, highest first; \<^verbatim>\<open>list.sort\<close> is stable, also with
  \<^verbatim>\<open>reverse=True\<close>, so candidates of equal weight keep the order in which they were
  found. The first entry of the sorted list is returned.\<close>

definition nomor_candidates :: "string \<Rightarrow> string option \<Rightarrow> candidate list" where
  "nomor_candidates text filename =
     (let T = clean_text (preclean text)
      in label_candidates T @ pattern_candidates T @ scan_candidates T @ filename_candidates filename)"

definition sort_by_confidence :: "candidate list \<Rightarrow> candidate list" where
  "sort_by_confidence candidates = sort_key (\<lambda>c. - int (snd c)) candidates"

definition best_candidate :: "candidate list \<Rightarrow> string option" where
  "best_candidate candidates =
     (case sort_by_confidence candidates of [] \<Rightarrow> None | c # cs \<Rightarrow> Some (fst c))"

definition extract_nomor_surat :: "string \<Rightarrow> string option \<Rightarrow> string option" where
  "extract_nomor_surat text filename = best_candidate (nomor_candidates text filename)"

section \<open>Date extractor: \<^verbatim>\<open>extract_tanggal\<close>\<close>

text \<open>A \<^verbatim>\<open>datetime\<close> at midnight is its calendar date. \<open>mk_date\<close> is the constructor
  \<^verbatim>\<open>datetime(year, month, day)\<close>, which raises \<^verbatim>\<open>ValueError\<close> (here \<open>None\<close>) for a
  date that is not on the calendar.\<close>

datatype date = Date (d_year: nat) (d_month: nat) (d_day: nat)

definition is_leap :: "nat \<Rightarrow> bool" where
  "is_leap y = (y mod 4 = 0 \<and> (y mod 100 \<noteq> 0 \<or> y mod 400 = 0))"

definition days_in_month :: "nat \<Rightarrow> nat \<Rightarrow> nat" where
  "days_in_month y m =
     (if m = 2 then (if is_leap y then 29 else 28)
      else if m = 4 \<or> m = 6 \<or> m = 9 \<or> m = 11 then 30 else 31)"

definition mk_date :: "nat \<Rightarrow> nat \<Rightarrow> nat \<Rightarrow> date option" where
  "mk_date y m d =
     (if 1 \<le> y \<and> y \<le> 9999 \<and> 1 \<le> m \<and> m \<le> 12 \<and> 1 \<le> d \<and> d \<le> days_in_month y m
      then Some (Date y m d) else None)"

definition BULAN_ID :: "(string \<times> nat) list" where
  "BULAN_ID =
     [(''januari'', 1), (''februari'', 2), (''maret'', 3), (''april'', 4), (''mei'', 5),
      (''juni'', 6), (''juli'', 7), (''agustus'', 8), (''september'', 9), (''oktober'', 10),
      (''november'', 11), (''desember'', 12)]"

text \<open>\<^verbatim>\<open>(\d{1,2})\s+([A-Za-z]+)\s+(20\d{2})\<close> (with \<^verbatim>\<open>IGNORECASE\<close>),
  \<^verbatim>\<open>\b(\d{1,2})[-/](\d{1,2})[-/](20\d{2})\b\<close>,
  \<^verbatim>\<open>(?i)\b(Tanggal|Tgl)\b\s*[:.]?\s*(\d{1,2})\s+([A-Za-z]+)\s+(20\d{2})\<close> and
  \<^verbatim>\<open>\b(20\d{2})\b\<close>\<close>

definition year20 :: regex where
  "year20 = Seq (lits ''20'') (Rep 2 (Some 2) (Cls [D09]))"

definition rx_date_id :: regex where
  "rx_date_id =
     seqs [Grp 1 (Rep 1 (Some 2) (Cls [D09])), Plus (Cls [WS]), Grp 2 (Plus (Cls [AZ, Az])),
           Plus (Cls [WS]), Grp 3 year20]"

definition rx_date_numeric :: regex where
  "rx_date_numeric =
     seqs [WordB, Grp 1 (Rep 1 (Some 2) (Cls [D09])), One (Cls [C CHR ''-'', C CHR ''/'']),
           Grp 2 (Rep 1 (Some 2) (Cls [D09])), One (Cls [C CHR ''-'', C CHR ''/'']),
           Grp 3 year20, WordB]"

definition rx_date_label :: regex where
  "rx_date_label =
     seqs [WordB, Grp 1 (alts [lits ''Tanggal'', lits ''Tgl'']), WordB, label_gap,
           Grp 2 (Rep 1 (Some 2) (Cls [D09])), Plus (Cls [WS]), Grp 3 (Plus (Cls [AZ, Az])),
           Plus (Cls [WS]), Grp 4 year20]"

definition rx_year_only :: regex where
  "rx_year_only = seqs [WordB, Grp 1 year20, WordB]"

text \<open>The three patterns that carry a day, each on the cleaned text: a pattern yields no
  date when it does not match, when the month name is unknown or when the date is not on
  the calendar.\<close>

definition tanggal_id :: "string \<Rightarrow> date option" where
  "tanggal_id T =
     (case re_search True False rx_date_id T of
        None \<Rightarrow> None
      | Some m \<Rightarrow>
          (case map_of BULAN_ID (lower (grp m 2)) of
             None \<Rightarrow> None
           | Some month \<Rightarrow> mk_date (int_of_digits (grp m 3)) month (int_of_digits (grp m 1))))"

definition tanggal_numeric :: "string \<Rightarrow> date option" where
  "tanggal_numeric T =
     (case re_search False False rx_date_numeric T of
        None \<Rightarrow> None
      | Some m \<Rightarrow>
          mk_date (int_of_digits (grp m 3)) (int_of_digits (grp m 2)) (int_of_digits (grp m 1)))"

definition tanggal_label :: "string \<Rightarrow> date option" where
  "tanggal_label T =
     (case re_search True False rx_date_label T of
        None \<Rightarrow> None
      | Some m \<Rightarrow>
          (case map_of BULAN_ID (lower (grp m 3)) of
             None \<Rightarrow> None
           | Some month \<Rightarrow> mk_date (int_of_digits (grp m 4)) month (int_of_digits (grp m 2))))"

text \<open>The fallback: a bare year becomes the first of January of that year.\<close>

definition tanggal_year_only :: "string \<Rightarrow> date option" where
  "tanggal_year_only T =
     (case re_search False False rx_year_only T of
        None \<Rightarrow> None
      | Some m \<Rightarrow> mk_date (int_of_digits (grp m 1)) 1 1)"

definition extract_tanggal :: "string \<Rightarrow> date option" where
  "extract_tanggal text =
     (let T = clean_text text in
      case tanggal_id T of
        Some d \<Rightarrow> Some d
      | None \<Rightarrow>
          (case tanggal_numeric T of
             Some d \<Rightarrow> Some d
           | None \<Rightarrow>
               (case tanggal_label T of
                  Some d \<Rightarrow> Some d
                | None \<Rightarrow> tanggal_year_only T)))"

text \<open>\<^verbatim>\<open>strftime\<close>: \<^verbatim>\<open>%d\<close> is the day on two digits, \<^verbatim>\<open>%Y\<close> the year, and \<^verbatim>\<open>%B\<close> the
  month name of the process locale. The repository never sets a locale, so the names are
  those of the C locale.\<close>

definition month_names :: "string list" where
  "month_names = [''January'', ''February'', ''March'', ''April'', ''May'', ''June'', ''July'',
     ''August'', ''September'', ''October'', ''November'', ''December'']"

definition pad2 :: "nat \<Rightarrow> string" where
  "pad2 n = (if n < 10 then CHR ''0'' # str_of_nat n else str_of_nat n)"

definition strftime_dBY :: "date \<Rightarrow> string" where
  "strftime_dBY d =
     pad2 (d_day d) @ '' '' @ (month_names ! (d_month d - 1)) @ '' '' @ str_of_nat (d_year d)"

definition strftime_Y :: "date \<Rightarrow> string" where
  "strftime_Y d = str_of_nat (d_year d)"

section \<open>Type classifier: \<^verbatim>\<open>detect_jenis\<close>\<close>

text \<open>The statistical classifier \<^verbatim>\<open>ml_classify\<close> is a parameter of the model: \<open>None\<close>
  when the module could not be imported (\<^verbatim>\<open>USE_ML_CLASSIFIER\<close> is false), otherwise
  the function from a text to a label and a confidence, \<open>None\<close> where it raises.\<close>

type_synonym ml_classifier = "(string \<Rightarrow> (string \<times> real) option) option"

definition lainnya_keywords :: "string list" where
  "lainnya_keywords = [''PAPARAN'', ''BUKU PANDUAN'', ''PANDUAN'', ''PRESENTASI'', ''HANDBOOK'',
     ''GUIDE BOOK'', ''MANUAL'', ''MODUL'']"

definition kop_patterns :: "string list" where
  "kop_patterns = [''KELURAHAN PELA MAMPANG'', ''BANGKA X UJUNG'', ''PELAMAMAMPANGKELURAHAN'',
     ''718 2380'', ''7182380'']"

text \<open>\<^verbatim>\<open>(?i)\b(Nomor|No)\b\s*[:=.\-]*\s*[A-Za-z0-9]\<close>\<close>

definition rx_nomor_label :: regex where
  "rx_nomor_label =
     seqs [WordB, Grp 1 (alts [lits ''Nomor'', lits ''No'']), WordB, Star (Cls [WS]),
           Star (Cls [C CHR '':'', C CHR ''='', C CHR ''.'', C CHR ''-'']), Star (Cls [WS]),
           One (Cls [AZ, Az, D09])]"

text \<open>\<^verbatim>\<open>(?i)(kepada|yth).{0,50}(lurah|kelurahan).{0,20}pela\s+mampang\<close>, with
  \<^verbatim>\<open>DOTALL\<close>\<close>

definition rx_recipient :: regex where
  "rx_recipient =
     seqs [Grp 1 (alts [lits ''kepada'', lits ''yth'']), Rep 0 (Some 50) Dot,
           Grp 2 (alts [lits ''lurah'', lits ''kelurahan'']), Rep 0 (Some 20) Dot,
           lits ''pela'', Plus (Cls [WS]), lits ''mampang'']"

text \<open>\<^verbatim>\<open>^\d{1,3}[-/][A-Z]{2}\.\d\<close>, \<^verbatim>\<open>^\d{1,3}/\d{2}/\d{2}\<close>,
  \<^verbatim>\<open>(?i)(?:^|/|[-_])SM(?:/|[-_]|$)\<close> and the same with \<^verbatim>\<open>SK\<close>\<close>

definition rx_keluar_code :: regex where
  "rx_keluar_code =
     seqs [Bol, Rep 1 (Some 3) (Cls [D09]), One (Cls [C CHR ''-'', C CHR ''/'']),
           Rep 2 (Some 2) (Cls [AZ]), One (Lit CHR ''.''), One (Cls [D09])]"

definition rx_keluar_segments :: regex where
  "rx_keluar_segments =
     seqs [Bol, Rep 1 (Some 3) (Cls [D09]), One (Lit CHR ''/''), Rep 2 (Some 2) (Cls [D09]),
           One (Lit CHR ''/''), Rep 2 (Some 2) (Cls [D09])]"

definition rx_marker :: "string \<Rightarrow> regex" where
  "rx_marker mk =
     seqs [alts [Bol, One (Lit CHR ''/''), One (Cls [C CHR ''-'', C CHR ''_''])], lits mk,
           alts [One (Lit CHR ''/''), One (Cls [C CHR ''-'', C CHR ''_'']), Eol]]"

text \<open>\<^verbatim>\<open>(?i)\bmasuk\b\<close> and \<^verbatim>\<open>(?i)\bkeluar\b\<close>\<close>

definition rx_word :: "string \<Rightarrow> regex" where
  "rx_word w = seqs [WordB, lits w, WordB]"

definition has_kop_pela_mampang_top :: "string \<Rightarrow> bool" where
  "has_kop_pela_mampang_top T =
     (let header_first_10_lines = upper (join '' '' (take 10 (take 30 (splitlines T))))
      in list_ex (\<lambda>p. contains header_first_10_lines p) kop_patterns
         \<or> (contains header_first_10_lines ''PELA MAMPANG''
            \<and> contains header_first_10_lines ''MAMPANG PRAPATAN''))"

definition is_recipient_pela_mampang :: "string \<Rightarrow> bool" where
  "is_recipient_pela_mampang T = (re_search True True rx_recipient (take 1000 T) \<noteq> None)"

definition has_nomor_label :: "string \<Rightarrow> bool" where
  "has_nomor_label T = (re_search True False rx_nomor_label T \<noteq> None)"

definition non_letter_keywords :: "string \<Rightarrow> bool" where
  "non_letter_keywords T = list_ex (\<lambda>kw. contains (upper (take 500 T)) kw) lainnya_keywords"

text \<open>The checks after the letterhead rules, in the order of the source: the shape of the
  number, the institution header, the file name, the statistical classifier, the default.\<close>

definition jenis_by_nomor :: "string option \<Rightarrow> (string \<times> real \<times> string) option" where
  "jenis_by_nomor nomor =
     (case nomor of
        None \<Rightarrow> None
      | Some n \<Rightarrow>
          if n = [] then None
          else if re_search False False rx_keluar_code n \<noteq> None
            then Some (''keluar'', 0.90, ''nomor-pattern-keluar'')
          else if re_search False False rx_keluar_segments n \<noteq> None
            then Some (''keluar'', 0.90, ''nomor-pattern-keluar'')
          else if re_search True False (rx_marker ''SM'') n \<noteq> None
            then Some (''masuk'', 0.90, ''nomor-pattern-SM'')
          else None)"

definition jenis_by_header :: "string \<Rightarrow> (string \<times> real \<times> string) option" where
  "jenis_by_header T =
     (let header_text = upper (join '' '' (take 30 (splitlines T))) in
      if contains header_text ''PEMERINTAH'' \<and> \<not> has_kop_pela_mampang_top T then
        (if contains header_text ''KEPADA''
            \<and> (contains header_text ''YTH'' \<or> contains header_text ''YANG TERHORMAT'')
         then (if is_recipient_pela_mampang T
               then Some (''masuk'', 0.95, ''pemerintah-to-pela-mampang'')
               else Some (''keluar'', 0.80, ''kepada-yth-pattern''))
         else Some (''masuk'', 0.85, ''pemerintah-header''))
      else if contains header_text ''KEMENTERIAN'' \<or> contains header_text ''DEWAN''
              \<or> contains header_text ''PT.''
        then Some (''masuk'', 0.85, ''external-institution'')
      else None)"

definition jenis_by_filename :: "string option \<Rightarrow> (string \<times> real \<times> string) option" where
  "jenis_by_filename filename =
     (case filename of
        None \<Rightarrow> None
      | Some fn \<Rightarrow>
          if fn = [] then None
          else
            (let name = rsplit_head CHR ''.'' fn in
             if re_search True False (rx_marker ''SM'') name \<noteq> None
                \<or> re_search True False (rx_word ''masuk'') name \<noteq> None
               then Some (''masuk'', 0.70, ''filename-hint'')
             else if re_search True False (rx_marker ''SK'') name \<noteq> None
                \<or> re_search True False (rx_word ''keluar'') name \<noteq> None
               then Some (''keluar'', 0.70, ''filename-hint'')
             else None))"

definition jenis_by_ml :: "ml_classifier \<Rightarrow> string \<Rightarrow> (string \<times> real \<times> string) option" where
  "jenis_by_ml ml text =
     (case ml of
        None \<Rightarrow> None
      | Some ml_classify \<Rightarrow>
          if 50 < length (strip text) then
            (case ml_classify text of
               None \<Rightarrow> None
             | Some (jenis, confidence) \<Rightarrow>
                 if 0.80 < confidence then Some (jenis, confidence, ''ml-classifier'') else None)
          else None)"

definition detect_jenis :: "ml_classifier \<Rightarrow> string \<Rightarrow> string option \<Rightarrow> string option \<Rightarrow> string \<times> real \<times> string" where
  "detect_jenis ml text nomor filename =
     (let T = clean_text text in
      if non_letter_keywords T then (''lainnya'', 0.90, ''non-letter-keywords'')
      else if \<not> has_nomor_label T then (''lainnya'', 0.85, ''no-nomor-label'')
      else if has_kop_pela_mampang_top T \<and> \<not> is_recipient_pela_mampang T
        then (''keluar'', 0.95, ''kop-pela-mampang'')
      else if is_recipient_pela_mampang T then (''masuk'', 0.95, ''recipient-pela-mampang'')
      else
        (case jenis_by_nomor nomor of
           Some r \<Rightarrow> r
         | None \<Rightarrow>
             (case jenis_by_header T of
                Some r \<Rightarrow> r
              | None \<Rightarrow>
                  (case jenis_by_filename filename of
                     Some r \<Rightarrow> r
                   | None \<Rightarrow>
                       (case jenis_by_ml ml text of
                          Some r \<Rightarrow> r
                        | None \<Rightarrow> (''lainnya'', 0.60, ''default-fallback''))))))"

section \<open>Subject extractor: \<^verbatim>\<open>extract_perihal\<close>\<close>

text \<open>The patterns of \<^verbatim>\<open>_sanitize_perihal\<close>:
  \<^verbatim>\<open>\b[O0][S5IB0-9]\s*[\'\"`]?\s*/\s*[A-Z]{2}\.[0-9.]+\<close> (with \<^verbatim>\<open>IGNORECASE\<close>),
  \<^verbatim>\<open>^\d{2,3}\s*/\s*[A-Z]{2}\.[0-9.]+\s+\d{1,2}\s+\w+\s+\d{4}\<close>,
  \<^verbatim>\<open>(?i)\bYth\.\<close>, \<^verbatim>\<open>(?i)\bKepada\b\<close>,
  \<^verbatim>\<open>(?i)\s+(kebakaran|di|jakarta|tanggal|nomor)\s*$\<close> and
  \<^verbatim>\<open>^\d{1,2}[-/\s]\w+[-/\s]\d{2,4}$\<close>\<close>

definition rx_ocr_nomor :: regex where
  "rx_ocr_nomor =
     seqs [WordB, One (Cls [C CHR ''O'', C CHR ''0'']),
           One (Cls [C CHR ''S'', C CHR ''5'', C CHR ''I'', C CHR ''B'', D09]), Star (Cls [WS]),
           Opt (Cls [C APO, C DQ, C BQ]), Star (Cls [WS]), One (Lit CHR ''/''), Star (Cls [WS]),
           Rep 2 (Some 2) (Cls [AZ]), One (Lit CHR ''.''), Plus (Cls [D09, C CHR ''.''])]"

definition rx_nomor_tanggal :: regex where
  "rx_nomor_tanggal =
     seqs [Bol, Rep 2 (Some 3) (Cls [D09]), Star (Cls [WS]), One (Lit CHR ''/''), Star (Cls [WS]),
           Rep 2 (Some 2) (Cls [AZ]), One (Lit CHR ''.''), Plus (Cls [D09, C CHR ''.'']),
           Plus (Cls [WS]), Rep 1 (Some 2) (Cls [D09]), Plus (Cls [WS]), Plus (Cls [WD]),
           Plus (Cls [WS]), Rep 4 (Some 4) (Cls [D09])]"

definition rx_yth :: regex where
  "rx_yth = seqs [WordB, lits ''Yth'', One (Lit CHR ''.'')]"

definition rx_kepada :: regex where
  "rx_kepada = seqs [WordB, lits ''Kepada'', WordB]"

definition rx_trailing_word :: regex where
  "rx_trailing_word =
     seqs [Plus (Cls [WS]),
           Grp 1 (alts [lits ''kebakaran'', lits ''di'', lits ''jakarta'', lits ''tanggal'',
                        lits ''nomor'']),
           Star (Cls [WS]), Eol]"

definition rx_date_like :: regex where
  "rx_date_like =
     seqs [Bol, Rep 1 (Some 2) (Cls [D09]), One (Cls [C CHR ''-'', C CHR ''/'', WS]),
           Plus (Cls [WD]), One (Cls [C CHR ''-'', C CHR ''/'', WS]), Rep 2 (Some 4) (Cls [D09]), Eol]"

definition header_indicators :: "string list" where
  "header_indicators = [''PEMERINTAH'', ''PROVINSI'', ''DAERAH'', ''KHUSUS'', ''IBUKOTA'', ''KOTA'',
     ''ADMINISTRASI'', ''KECAMATAN'', ''KELURAHAN'', ''DINAS'', ''KEMENTERIAN'', ''REPUBLIK'']"

text \<open>\<^verbatim>\<open>re.split(pattern, s)[0]\<close>: the text before the first match, all of \<open>s\<close> when
  there is none.\<close>

definition split_head :: "regex \<Rightarrow> string \<Rightarrow> string" where
  "split_head r s = (case re_search True False r s of None \<Rightarrow> s | Some m \<Rightarrow> m_before m)"

text \<open>The loop over the two recipient patterns: the first whose head has at least three
  characters cuts the value and ends the loop.\<close>

definition cut_recipient :: "string \<Rightarrow> string" where
  "cut_recipient cleaned =
     (if 3 \<le> length (strip (split_head rx_yth cleaned))
        then strip_chars '' ,.;'' (split_head rx_yth cleaned)
      else if 3 \<le> length (strip (split_head rx_kepada cleaned))
        then strip_chars '' ,.;'' (split_head rx_kepada cleaned)
      else cleaned)"

definition sanitize_perihal :: "string \<Rightarrow> string option" where
  "sanitize_perihal value =
     (if value = [] then None
      else
        (let cleaned = lstrip_chars '':- '' (strip value) in
         if re_search True False rx_ocr_nomor cleaned \<noteq> None then None
         else if re_search False False rx_nomor_tanggal cleaned \<noteq> None then None
         else
           (let cleaned = cut_recipient cleaned;
                cleaned = strip (re_sub True False rx_trailing_word (\<lambda>m. []) cleaned);
                header_count = length (filter (\<lambda>keyword. contains (upper cleaned) keyword) header_indicators)
            in if 3 \<le> header_count then None
               else if upper cleaned \<in> set HEADER_KEYWORDS then None
               else if length cleaned < 5 \<or> isdigit cleaned then None
               else if re_match False False rx_date_like cleaned \<noteq> None then None
               else if isupper cleaned \<and> 40 < length cleaned then None
               else Some cleaned)))"

subsection \<open>Priority 1: the label block\<close>

definition perihal_from_label :: "string \<Rightarrow> string option" where
  "perihal_from_label T =
     (case extract_label_block_values T ''perihal'' of
        None \<Rightarrow> None
      | Some perihal_value \<Rightarrow> sanitize_perihal perihal_value)"

subsection \<open>Priority 2: the first \<^verbatim>\<open>Hal\<close> or \<^verbatim>\<open>Perihal\<close> in the text\<close>

text \<open>\<^verbatim>\<open>(?i)\b(Hal|Perihal)\b\<close>. The loop over the next ten lines skips empty lines
  before the first collected line and stops at an empty line after it.\<close>

definition rx_hal :: regex where
  "rx_hal = seqs [WordB, Grp 1 (alts [lits ''Hal'', lits ''Perihal'']), WordB]"

fun collect_direct :: "string list \<Rightarrow> string list \<Rightarrow> string list" where
  "collect_direct collected [] = collected"
| "collect_direct collected (l # ls) =
     (let line = strip l in
      if line = [] then (if collected \<noteq> [] then collected else collect_direct collected ls)
      else if is_label_line line \<noteq> None then collected
      else if re_match True False rx_recipient_start line \<noteq> None then collected
      else collect_direct (collected @ [line]) ls)"

definition perihal_direct :: "string \<Rightarrow> string option" where
  "perihal_direct T =
     (case re_search True False rx_hal T of
        None \<Rightarrow> None
      | Some label_match \<Rightarrow>
          (let remainder = lstrip_chars [CHR '' '', TAB, CR, LF, CHR '':'', CHR ''-'', CHR '' '']
                             (m_after label_match);
               collected_lines = collect_direct [] (take 10 (splitlines remainder))
           in if collected_lines = [] then None
              else sanitize_perihal (join '' '' collected_lines)))"

subsection \<open>Priority 3: keyword scan of lines 5 to 39\<close>

definition rx_keywords :: regex where
  "rx_keywords =
     seqs [WordB,
           Grp 1 (alts [lits ''Permohonan'', lits ''Balasan'', lits ''Undangan'', lits ''Disposisi'',
                        lits ''Pemberitahuan'', lits ''Pengajuan'', lits ''Laporan'',
                        lits ''Penyampaian'', lits ''Permintaan'']),
           WordB]"

fun keyword_scan :: "string list \<Rightarrow> string option" where
  "keyword_scan [] = None"
| "keyword_scan (l # ls) =
     (if re_search True False rx_keywords l \<noteq> None then
        (case sanitize_perihal (strip l) of
           Some sanitized \<Rightarrow> if 10 < length sanitized then Some sanitized else keyword_scan ls
         | None \<Rightarrow> keyword_scan ls)
      else keyword_scan ls)"

definition perihal_keyword :: "string \<Rightarrow> string option" where
  "perihal_keyword T = keyword_scan (take 35 (drop 5 (splitlines T)))"

subsection \<open>Priority 4: the file name\<close>

text \<open>\<^verbatim>\<open>^\s*[A-Za-z0-9.\-\/]+\s+(.+)$\<close>\<close>

definition rx_filename_perihal :: regex where
  "rx_filename_perihal =
     seqs [Bol, Star (Cls [WS]), Plus (Cls [AZ, Az, D09, C CHR ''.'', C CHR ''-'', C CHR ''/'']),
           Plus (Cls [WS]), Grp 1 (Plus Dot), Eol]"

definition perihal_filename :: "string option \<Rightarrow> string option" where
  "perihal_filename filename =
     (case filename of
        None \<Rightarrow> None
      | Some fn \<Rightarrow>
          if fn = [] then None
          else (case re_match False False rx_filename_perihal (rsplit_head CHR ''.'' fn) of
                  None \<Rightarrow> None
                | Some mm \<Rightarrow>
                    (let perihal_candidate = strip (grp mm 1)
                     in if 3 < length perihal_candidate then Some perihal_candidate else None)))"

text \<open>The first strategy that yields a value wins.\<close>

definition extract_perihal :: "string \<Rightarrow> string option \<Rightarrow> string option" where
  "extract_perihal text filename =
     (let T = clean_text (preclean text) in
      case perihal_from_label T of
        Some sanitized \<Rightarrow> Some sanitized
      | None \<Rightarrow>
          (case perihal_direct T of
             Some sanitized \<Rightarrow> Some sanitized
           | None \<Rightarrow>
               (case perihal_keyword T of
                  Some sanitized \<Rightarrow> Some sanitized
                | None \<Rightarrow> perihal_filename filename)))"

section \<open>The unified parser: \<^verbatim>\<open>parse_metadata\<close>\<close>

text \<open>The dictionary that \<^verbatim>\<open>parse_metadata\<close> returns. The key \<^verbatim>\<open>perihal\<close> is set only
  for a type other than \<^verbatim>\<open>keluar\<close>: the field is \<open>None\<close> when the key is absent and
  \<open>Some v\<close> when the key holds \<open>v\<close> (itself \<open>None\<close> when no subject was found).\<close>

record extraction_stats =
  fields_extracted :: nat
  total_fields :: nat
  text_length :: nat
  has_header :: bool
  has_signature :: bool
  stats_jenis_confidence :: real
  stats_jenis_method :: string

record parsed =
  nomor :: "string option"
  tanggal_surat :: "string option"
  tahun :: "nat option"
  jenis :: string
  jenis_confidence :: real
  jenis_method :: string
  stats :: extraction_stats
  perihal :: "string option option"

text \<open>Python's truth value of an optional string.\<close>

definition truthy :: "string option \<Rightarrow> bool" where
  "truthy v = (case v of None \<Rightarrow> False | Some s \<Rightarrow> s \<noteq> [])"

text \<open>The date string: day, month name and year, unless the day of the month is 1, in
  which case the year alone.\<close>

definition tanggal_str_of :: "date option \<Rightarrow> string option" where
  "tanggal_str_of dt =
     (case dt of
        None \<Rightarrow> None
      | Some d \<Rightarrow> if d_day d \<noteq> 1 then Some (strftime_dBY d) else Some (strftime_Y d))"

text \<open>\<open>parse_metadata_with\<close> is \<^verbatim>\<open>parse_metadata\<close> with the subject extractor as its
  first argument, called in the one place where the source calls \<^verbatim>\<open>extract_perihal\<close>.
  The argument \<^verbatim>\<open>uploaded_at\<close> of the source is never read and is left out.\<close>

definition parse_metadata_with ::
    "(string \<Rightarrow> string option \<Rightarrow> string option) \<Rightarrow> ml_classifier \<Rightarrow> string \<Rightarrow> string option \<Rightarrow> parsed" where
  "parse_metadata_with subject ml text filename =
     (let nomor = extract_nomor_surat text filename;
          dt = extract_tanggal text;
          tanggal_str = tanggal_str_of dt;
          tahun = map_option d_year dt;
          (jenis, jenis_confidence, jenis_method) = detect_jenis ml text nomor filename;
          perihal = (if jenis \<noteq> ''keluar'' then subject text filename else None);
          extraction_stats = \<lparr>
            fields_extracted =
              length (filter id
                [truthy nomor,
                 (if jenis \<noteq> ''keluar'' then truthy perihal else False),
                 truthy tanggal_str,
                 (case tahun of None \<Rightarrow> False | Some y \<Rightarrow> y \<noteq> 0),
                 jenis \<noteq> []]),
            total_fields = 5,
            text_length = length text,
            has_header = False,
            has_signature = False,
            stats_jenis_confidence = jenis_confidence,
            stats_jenis_method = jenis_method \<rparr>
      in \<lparr> nomor = nomor,
           tanggal_surat = tanggal_str,
           tahun = tahun,
           jenis = jenis,
           jenis_confidence = jenis_confidence,
           jenis_method = jenis_method,
           stats = extraction_stats,
           perihal = (if jenis \<noteq> ''keluar'' then Some perihal else None) \<rparr>)"

definition parse_metadata :: "ml_classifier \<Rightarrow> string \<Rightarrow> string option \<Rightarrow> parsed" where
  "parse_metadata ml text filename = parse_metadata_with extract_perihal ml text filename"

section \<open>The upload operation (\<^verbatim>\<open>app/routers/upload.py\<close>)\<close>

subsection \<open>\<^verbatim>\<open>extract_bulan\<close>\<close>

definition MONTHS :: "string list" where
  "MONTHS = [''Januari'', ''Februari'', ''Maret'', ''April'', ''Mei'', ''Juni'', ''Juli'',
     ''Agustus'', ''September'', ''Oktober'', ''November'', ''Desember'']"

definition MONTHS_EN :: "string list" where
  "MONTHS_EN = [''January'', ''February'', ''March'', ''April'', ''May'', ''June'', ''July'',
     ''August'', ''September'', ''October'', ''November'', ''December'']"

definition extract_bulan :: "string option \<Rightarrow> string option" where
  "extract_bulan tanggal =
     (case tanggal of
        None \<Rightarrow> None
      | Some t \<Rightarrow>
          if t = [] then None
          else
            (case find (\<lambda>month. contains (lower t) (lower month)) MONTHS of
               Some month \<Rightarrow> Some month
             | None \<Rightarrow>
                 map_option snd
                   (find (\<lambda>(month_en, month). contains (lower t) (lower month_en))
                      (zip MONTHS_EN MONTHS))))"

subsection \<open>Quality score\<close>

record metadata_quality =
  score :: int
  warnings :: "string list"
  ocr_used :: bool

text \<open>One entry of \<^verbatim>\<open>quality_checks\<close>: the weight is added when the field holds a true
  value other than the default, the warning is appended otherwise.\<close>

definition quality_check :: "bool \<Rightarrow> int \<Rightarrow> string \<Rightarrow> metadata_quality \<Rightarrow> metadata_quality" where
  "quality_check ok weight warning q =
     (if ok then q\<lparr>score := score q + weight\<rparr> else q\<lparr>warnings := warnings q @ [warning]\<rparr>)"

text \<open>\<^verbatim>\<open>parsed.get("perihal")\<close>: nothing when the key is absent.\<close>

definition get_perihal :: "parsed \<Rightarrow> string option" where
  "get_perihal p = (case perihal p of None \<Rightarrow> None | Some v \<Rightarrow> v)"

definition perihal_present :: "parsed \<Rightarrow> bool" where
  "perihal_present p = (truthy (get_perihal p) \<and> get_perihal p \<noteq> Some ''Tidak ada perihal'')"

text \<open>The four field checks and the subject check: the subject is required for
  \<^verbatim>\<open>keluar\<close> (25 points, a warning when it is missing) and a bonus otherwise (15
  points, no warning).\<close>

definition quality_fields :: "bool \<Rightarrow> parsed \<Rightarrow> metadata_quality" where
  "quality_fields used p =
     (let q = \<lparr> score = 0, warnings = [], ocr_used = used \<rparr>;
          q = quality_check (truthy (nomor p) \<and> nomor p \<noteq> Some ''TANPA-NOMOR'') 30
                ''Nomor surat tidak terdeteksi'' q;
          q = quality_check (truthy (tanggal_surat p)) 20 ''Tanggal surat tidak terdeteksi'' q;
          q = quality_check (case tahun p of None \<Rightarrow> False | Some y \<Rightarrow> y \<noteq> 0) 10
                ''Tahun tidak terdeteksi'' q;
          q = quality_check (jenis p \<noteq> []) 10 ''Jenis surat tidak terdeteksi'' q
      in if jenis p = ''keluar'' then
           quality_check (perihal_present p) 25
             ''Perihal tidak terdeteksi (wajib untuk surat keluar)'' q
         else if perihal_present p then q\<lparr>score := score q + 15\<rparr>
         else q)"

text \<open>The penalties, applied after the field checks: for a short text, and for a low
  success rate of the recognition. \<open>ocr_rate\<close> is \<^verbatim>\<open>ocr_stats.get('success_rate', 0)\<close> of
  a non-empty \<^verbatim>\<open>ocr_stats\<close>, a float; \<open>show_rate\<close> is its printed form in the
  warning.\<close>

definition text_penalty :: "nat \<Rightarrow> metadata_quality \<Rightarrow> metadata_quality" where
  "text_penalty n_chars q =
     (if n_chars < 100 then
        q\<lparr>warnings := warnings q @ [''Teks terekstrak sangat pendek (kualitas OCR buruk)''],
          score := max 0 (score q - 15)\<rparr>
      else if ocr_used q \<and> n_chars < 300 then
        q\<lparr>warnings := warnings q @ [''Teks hasil OCR kurang lengkap''],
          score := max 0 (score q - 5)\<rparr>
      else q)"

definition ocr_penalty :: "(real \<Rightarrow> string) \<Rightarrow> real option \<Rightarrow> metadata_quality \<Rightarrow> metadata_quality" where
  "ocr_penalty show_rate ocr_rate q =
     (case ocr_rate of
        None \<Rightarrow> q
      | Some success_rate \<Rightarrow>
          if ocr_used q \<and> success_rate < 50 then
            q\<lparr>warnings := warnings q @ [''OCR success rate rendah ('' @ show_rate success_rate @ ''%)''],
              score := max 0 (score q - 10)\<rparr>
          else q)"

definition assess_quality ::
    "(real \<Rightarrow> string) \<Rightarrow> parsed \<Rightarrow> nat \<Rightarrow> bool \<Rightarrow> real option \<Rightarrow> metadata_quality" where
  "assess_quality show_rate p n_chars used ocr_rate =
     ocr_penalty show_rate ocr_rate (text_penalty n_chars (quality_fields used p))"

subsection \<open>Final values of the record\<close>

text \<open>The year: \<^verbatim>\<open>int(tahun)\<close> when it is positive, nothing otherwise.\<close>

definition tahun_final :: "nat option \<Rightarrow> nat option" where
  "tahun_final t = (case t of None \<Rightarrow> None | Some y \<Rightarrow> if y = 0 then None else Some y)"

text \<open>The type: a missing type falls back to the markers \<^verbatim>\<open>SM\<close> and \<^verbatim>\<open>SK\<close> in the
  number, then to \<^verbatim>\<open>masuk\<close>; after that a type outside the three allowed values is
  replaced.\<close>

definition jenis_fallback :: "string \<Rightarrow> string \<times> real \<times> string" where
  "jenis_fallback nomor_final =
     (if re_search True False (rx_marker ''SM'') nomor_final \<noteq> None
        then (''masuk'', 0.75, ''nomor-pattern'')
      else if re_search True False (rx_marker ''SK'') nomor_final \<noteq> None
        then (''keluar'', 0.75, ''nomor-pattern'')
      else (''masuk'', 0.50, ''default-fallback''))"

definition jenis_validated :: "string \<times> real \<times> string \<Rightarrow> string \<times> real \<times> string" where
  "jenis_validated j =
     (if fst j \<notin> {''masuk'', ''keluar'', ''lainnya''} then (''masuk'', 0.50, ''invalid-fallback'')
      else j)"

definition jenis_final :: "string option \<Rightarrow> real \<Rightarrow> string \<Rightarrow> string \<Rightarrow> string \<times> real \<times> string" where
  "jenis_final jenis_parsed confidence method nomor_final =
     jenis_validated
       (case jenis_parsed of
          None \<Rightarrow> jenis_fallback nomor_final
        | Some j \<Rightarrow> (j, confidence, method))"

subsection \<open>Folder path\<close>

text \<open>The segments joined to \<^verbatim>\<open>STORAGE_ROOT_DIR\<close>, in order. The conditions are
  Python's truth values: a year that is present and not 0, a month name that is present
  and not empty.\<close>

definition resolve_path :: "nat option \<Rightarrow> string \<Rightarrow> string option \<Rightarrow> string \<Rightarrow> string list" where
  "resolve_path tahun_f jenis_f bulan_f slug =
     (case tahun_f of
        None \<Rightarrow> [jenis_f, slug]
      | Some y \<Rightarrow>
          if y = 0 then [jenis_f, slug]
          else if truthy bulan_f then [str_of_nat y, jenis_f, the bulan_f, slug]
          else [str_of_nat y, jenis_f, slug])"

subsection \<open>The stored record\<close>

text \<open>The fields of the \<^verbatim>\<open>Document\<close> row that come from the parser, and its folder.
  \<^verbatim>\<open>slugify_nomor\<close> (\<^verbatim>\<open>app/utils/slugs.py\<close>) is a parameter.\<close>

record document =
  doc_tahun :: "nat option"
  doc_jenis :: string
  doc_jenis_confidence :: real
  doc_jenis_method :: string
  doc_nomor_surat :: string
  doc_perihal :: "string option"
  doc_tanggal_surat :: "string option"
  doc_bulan :: "string option"
  doc_folder :: "string list"

definition nomor_final :: "parsed \<Rightarrow> string" where
  "nomor_final p = (if truthy (nomor p) then the (nomor p) else ''TANPA-NOMOR'')"

definition perihal_final :: "parsed \<Rightarrow> string option" where
  "perihal_final p =
     (if jenis p \<noteq> ''keluar'' then (if truthy (get_perihal p) then get_perihal p else None)
      else None)"

definition upload_record :: "(string \<Rightarrow> string) \<Rightarrow> parsed \<Rightarrow> document" where
  "upload_record slugify_nomor p =
     (let tanggal_final = tanggal_surat p;
          bulan_final = extract_bulan tanggal_final;
          tahun_f = tahun_final (tahun p);
          (jenis_f, confidence_f, method_f) =
            jenis_final (Some (jenis p)) (jenis_confidence p) (jenis_method p) (nomor_final p);
          slug = slugify_nomor (nomor_final p)
      in \<lparr> doc_tahun = tahun_f,
           doc_jenis = jenis_f,
           doc_jenis_confidence = confidence_f,
           doc_jenis_method = method_f,
           doc_nomor_surat = nomor_final p,
           doc_perihal = (if jenis_f \<noteq> ''keluar'' then perihal_final p else None),
           doc_tanggal_surat = tanggal_final,
           doc_bulan = bulan_final,
           doc_folder = resolve_path tahun_f jenis_f bulan_final slug \<rparr>)"

text \<open>The whole path from the extracted text to the stored record.\<close>

definition upload_document :: "(string \<Rightarrow> string) \<Rightarrow> ml_classifier \<Rightarrow> string \<Rightarrow> string option \<Rightarrow> document" where
  "upload_document slugify_nomor ml text_content filename =
     upload_record slugify_nomor (parse_metadata ml text_content filename)"

section \<open>The OCR page pipeline (\<^verbatim>\<open>app/services/ocr.py\<close>)\<close>

text \<open>
  Rendering and recognition are calls into PyMuPDF, Pillow and Tesseract. What those
  calls do on a page is the input of the model:
  \<^item> \<open>RenderFails\<close>: \<^verbatim>\<open>page.get_pixmap\<close> raises;
  \<^item> \<open>PrepareFails\<close>: the page is rendered, and writing, opening or converting its image
    raises before recognition starts;
  \<^item> \<open>Recognised primary fallback\<close>: the image reaches recognition; \<open>primary\<close> is the
    result of \<^verbatim>\<open>image_to_string\<close> with the configured language and \<open>fallback\<close> the
    result without it, \<open>None\<close> where the call raises. The fallback is called only when the
    primary call raises.
  The float \<^verbatim>\<open>success_rate\<close> of the statistics is not part of the model.
\<close>

datatype page_outcome =
    RenderFails
  | PrepareFails
  | Recognised "string option" "string option"

record ocr_stats =
  total_pages :: nat
  success_pages :: nat
  failed_pages :: nat
  total_chars :: nat
  dpi :: nat
  language :: string
  ocr_method :: string
  error :: "string option"

text \<open>The text of a page and whether the page counts as a success
  (\<^verbatim>\<open>bool(txt and txt.strip())\<close>).\<close>

definition recognise :: "string option \<Rightarrow> string option \<Rightarrow> string \<times> bool" where
  "recognise primary fallback =
     (case primary of
        Some txt \<Rightarrow> (txt, strip txt \<noteq> [])
      | None \<Rightarrow>
          (case fallback of
             Some txt \<Rightarrow> (txt, strip txt \<noteq> [])
           | None \<Rightarrow> ([], False)))"

text \<open>One turn of the loop over the pages, on the list \<^verbatim>\<open>text_chunks\<close> and the
  statistics.\<close>

fun ocr_page :: "page_outcome \<Rightarrow> string list \<times> ocr_stats \<Rightarrow> string list \<times> ocr_stats" where
  "ocr_page RenderFails (text_chunks, st) =
     (text_chunks, st\<lparr>failed_pages := failed_pages st + 1\<rparr>)"
| "ocr_page PrepareFails (text_chunks, st) = (text_chunks @ [[]], st)"
| "ocr_page (Recognised primary fallback) (text_chunks, st) =
     (let (txt, page_success) = recognise primary fallback
      in (text_chunks @ [txt],
          if page_success then st\<lparr>success_pages := success_pages st + 1\<rparr>
          else st\<lparr>failed_pages := failed_pages st + 1\<rparr>))"

definition ocr_pages :: "page_outcome list \<Rightarrow> string list \<times> ocr_stats \<Rightarrow> string list \<times> ocr_stats" where
  "ocr_pages pages s = fold ocr_page pages s"

text \<open>The aggregation: the chunks that are not blank, joined by line feeds.\<close>

definition aggregate :: "string list \<Rightarrow> string" where
  "aggregate text_chunks = join [LF] (filter (\<lambda>t. t \<noteq> [] \<and> strip t \<noteq> []) text_chunks)"

record ocr_deps =
  has_pytesseract :: bool
  has_fitz :: bool
  has_image :: bool

text \<open>\<^verbatim>\<open>ocr_pdf_to_text\<close>. The document is \<open>Inl e\<close> when \<^verbatim>\<open>fitz.open\<close> raises with the
  message \<open>e\<close>, and \<open>Inr pages\<close> otherwise. \<^verbatim>\<open>TESSERACT_LANG\<close>
  (\<^verbatim>\<open>app/constants.py\<close>) is the parameter \<open>lang\<close>.\<close>

definition ocr_pdf_to_text ::
    "ocr_deps \<Rightarrow> string \<Rightarrow> nat \<Rightarrow> string + page_outcome list \<Rightarrow> string \<times> ocr_stats" where
  "ocr_pdf_to_text deps lang dpi_arg doc =
     (let st0 = \<lparr> total_pages = 0, success_pages = 0, failed_pages = 0, total_chars = 0,
                  dpi = dpi_arg, language = lang, ocr_method = ''PyMuPDF + Pytesseract'',
                  error = None \<rparr>
      in if \<not> has_pytesseract deps then ([], st0\<lparr>error := Some ''pytesseract not available''\<rparr>)
         else if \<not> has_fitz deps then ([], st0\<lparr>error := Some ''PyMuPDF not available''\<rparr>)
         else if \<not> has_image deps then ([], st0\<lparr>error := Some ''PIL/Pillow not available''\<rparr>)
         else
           (case doc of
              Inl e \<Rightarrow> ([], st0\<lparr>error := Some e\<rparr>)
            | Inr pages \<Rightarrow>
                (let (text_chunks, st) = ocr_pages pages ([], st0\<lparr>total_pages := length pages\<rparr>);
                     result = aggregate text_chunks
                 in (strip result, st\<lparr>total_chars := length result\<rparr>))))"

section \<open>Notions of the specification and example inputs\<close>

text \<open>The selection rule of the number extractor in the words of the specification: the
  first candidate, in the order of generation, whose weight no other candidate exceeds.\<close>

definition first_of_highest_weight :: "candidate list \<Rightarrow> string option" where
  "first_of_highest_weight cs = map_option fst (find (\<lambda>c. \<forall>d \<in> set cs. snd d \<le> snd c) cs)"

text \<open>A token \<^verbatim>\<open>Nomor\<close> or \<^verbatim>\<open>No\<close>: the word, in any case, between two word
  boundaries (\<^verbatim>\<open>(?i)\b(Nomor|No)\b\<close>).\<close>

definition rx_nomor_token :: regex where
  "rx_nomor_token = Seq WordB (Seq (Grp 1 (alts [lits ''Nomor'', lits ''No''])) WordB)"

definition has_nomor_token :: "string \<Rightarrow> bool" where
  "has_nomor_token T = (re_search True False rx_nomor_token T \<noteq> None)"

text \<open>A page whose rendering raises, or whose recognition raises. Rendering is what
  produces the image that recognition reads: \<^verbatim>\<open>get_pixmap\<close>, and writing, opening and
  converting the image of the page. The recognition of a page is the primary call together
  with its fallback on the same page, and raises when both calls do.\<close>

definition raises :: "page_outcome \<Rightarrow> bool" where
  "raises pg = (pg = RenderFails \<or> pg = PrepareFails \<or> pg = Recognised None None)"

definition nonblank :: "string \<Rightarrow> bool" where
  "nonblank t = (t \<noteq> [] \<and> strip t \<noteq> [])"

definition deps_available :: "ocr_deps \<Rightarrow> bool" where
  "deps_available deps = (has_pytesseract deps \<and> has_fitz deps \<and> has_image deps)"

text \<open>The end-to-end scenario of the specification, and the same text after cleaning.\<close>

definition scenario_text :: string where
  "scenario_text =
     ''Nomor: 12/AB.01.02'' @ [LF] @ ''Tanggal: 5 Mei 2024'' @ [LF] @ ''Perihal: Undangan Rapat'' @ [LF]"

definition scenario_clean :: string where
  "scenario_clean =
     ''Nomor: 12/AB.01.02'' @ [LF] @ ''Tanggal: 5 Mei 2024'' @ [LF] @ ''Perihal: Undangan Rapat''"

text \<open>An incoming letter with the marker \<^verbatim>\<open>SM\<close> in its number, uploaded under a file
  name that starts with another well-formed number.\<close>

definition sm_letter :: string where
  "sm_letter = ''Nomor: 12/SM/2024 tanggal 17 Agustus 2024''"

definition sm_filename :: string where
  "sm_filename = ''12-AB.01 Undangan rapat.pdf''"

text \<open>A letter under the letterhead of the home institution.\<close>

definition kop_letter :: string where
  "kop_letter = ''KELURAHAN PELA MAMPANG'' @ [LF] @ ''Nomor: 5'' @ [LF] @ ''Perihal: Undangan Rapat''"

text \<open>A presentation, a date on the first of a month, a year alone, and a page of prose.\<close>

definition paparan_text :: string where
  "paparan_text = ''PAPARAN''"

definition first_of_month_text :: string where
  "first_of_month_text = ''Tanggal: 1 Mei 2024''"

definition year_only_text :: string where
  "year_only_text = ''Tahun 2024''"

definition prose_text :: string where
  "prose_text = ''Daftar hadir rapat warga''"

definition ocr_deps_ok :: ocr_deps where
  "ocr_deps_ok = \<lparr> has_pytesseract = True, has_fitz = True, has_image = True \<rparr>"

definition example_parsed :: parsed where
  "example_parsed =
     \<lparr> nomor = Some ''12/SM/2024'', tanggal_surat = Some ''17 August 2024'', tahun = Some 2024,
       jenis = ''masuk'', jenis_confidence = 0.90, jenis_method = ''nomor-pattern-SM'',
       stats = \<lparr> fields_extracted = 4, total_fields = 5, text_length = 400, has_header = False,
                 has_signature = False, stats_jenis_confidence = 0.90,
                 stats_jenis_method = ''nomor-pattern-SM'' \<rparr>,
       perihal = Some None \<rparr>"

section \<open>Notions for the analysis of the text normaliser\<close>

text \<open>A syntactic test on a pattern: every match of it contains a character of the set
  \<open>A\<close>. It is sufficient, not necessary.\<close>

fun needs :: "bool \<Rightarrow> bool \<Rightarrow> char set \<Rightarrow> regex \<Rightarrow> bool" where
  "needs ic ds A Eps = False"
| "needs ic ds A (One a) = (\<forall>c. atom_ok ic ds a c \<longrightarrow> c \<in> A)"
| "needs ic ds A Bol = False"
| "needs ic ds A Eol = False"
| "needs ic ds A WordB = False"
| "needs ic ds A (Seq a b) = (needs ic ds A a \<or> needs ic ds A b)"
| "needs ic ds A (Alt a b) = (needs ic ds A a \<and> needs ic ds A b)"
| "needs ic ds A (Rep mn mx a) = (0 < mn \<and> (\<forall>c. atom_ok ic ds a c \<longrightarrow> c \<in> A))"
| "needs ic ds A (Grp n r) = needs ic ds A r"

text \<open>The three characters of which every OCR repair of \<^verbatim>\<open>_clean_text\<close> needs at least
  one in the text: the eight literal replacements and the rule for a backslash or an
  apostrophe after a digit produce or consume a slash, and the repair of an internal code
  looks for a slash, a hyphen or a dot between its segments.\<close>

definition separators :: "char set" where
  "separators = {CHR ''/'', CHR ''-'', CHR ''.''}"

text \<open>The first four steps of \<^verbatim>\<open>_clean_text\<close>, the OCR repairs: the literal
  replacements, the two rules for a digit before a backslash or an apostrophe, and the
  rule for the letters O and l in an internal code.\<close>

definition repairs :: "string \<Rightarrow> string" where
  "repairs text =
     (let t = foldl (\<lambda>t (old, new). replace old new t) text replacements;
          t = re_sub False False rx_digit_backslash (\<lambda>m. grp m 1 @ ''/'') t;
          t = re_sub False False rx_apostrophe (\<lambda>m. grp m 1 @ '' /'') t
      in re_sub True False rx_fix_nomor fix_nomor t)"

text \<open>The last three steps of \<^verbatim>\<open>_clean_text\<close>, which normalise white space: runs of
  blanks and tabs become one blank, three or more line feeds separated by white space only
  become two, and the result is stripped.\<close>

definition whitespace_normal :: "string \<Rightarrow> string" where
  "whitespace_normal t =
     strip (re_sub False False rx_blank_lines (\<lambda>m. [LF, LF]) (re_sub False False rx_blanks (\<lambda>m. '' '') t))"

text \<open>The two substitutions started anywhere in a text, that is with any previous
  character.\<close>

definition collapse_blanks :: "char option \<Rightarrow> string \<Rightarrow> string" where
  "collapse_blanks p s = sub_go False False rx_blanks (\<lambda>m. '' '') 0 p s"

definition squeeze_lines :: "char option \<Rightarrow> string \<Rightarrow> string" where
  "squeeze_lines p s = sub_go False False rx_blank_lines (\<lambda>m. [LF, LF]) 0 p s"

text \<open>The shapes that the two substitutions leave behind: no tab and no two adjacent
  blanks; and at no position a stretch of white space with more than two line feeds,
  counted by \<open>lfc\<close> on the leading white space.\<close>

definition is_blank :: "char \<Rightarrow> bool" where
  "is_blank c = (c = CHR '' '' \<or> c = TAB)"

fun blanks_ok :: "string \<Rightarrow> bool" where
  "blanks_ok [] = True"
| "blanks_ok [c] = (c \<noteq> TAB)"
| "blanks_ok (c # d # cs) = (c \<noteq> TAB \<and> \<not> (c = CHR '' '' \<and> d = CHR '' '') \<and> blanks_ok (d # cs))"

definition lfc :: "string \<Rightarrow> nat" where
  "lfc s = length (filter (\<lambda>c. c = LF) (takeWhile is_space s))"

fun lf_ok :: "string \<Rightarrow> bool" where
  "lf_ok [] = True"
| "lf_ok (c # cs) = (lfc (c # cs) \<le> 2 \<and> lf_ok cs)"

text \<open>The continuations of the matcher inside the blank-line pattern
  \<^verbatim>\<open>\n\s*\n\s*\n+\<close>: after the second star, and after the first.\<close>

abbreviation accept :: "char option \<Rightarrow> string \<Rightarrow> captures \<Rightarrow> (string \<times> captures) option" where
  "accept \<equiv> (\<lambda>p' s' g'. Some (s', g'))"

definition lf_run :: "char option \<Rightarrow> string \<Rightarrow> captures \<Rightarrow> (string \<times> captures) option" where
  "lf_run p s g = rmatch False False (Plus (Lit LF)) p s g accept"

definition second_lf :: "char option \<Rightarrow> string \<Rightarrow> captures \<Rightarrow> (string \<times> captures) option" where
  "second_lf p s g =
     rmatch False False (seqs [One (Lit LF), Star (Cls [WS]), Plus (Lit LF)]) p s g accept"

text \<open>The characters of a text that are not white space, in their order. A repair
  \<open>shrinks\<close> a text: it leaves fewer of them, or it leaves the text as it is. The rule
  for O and l changes visible characters into visible ones and nothing else.\<close>

definition visible :: "string \<Rightarrow> string" where
  "visible s = filter (\<lambda>c. \<not> is_space c) s"

definition shrinks :: "string \<Rightarrow> string \<Rightarrow> bool" where
  "shrinks s out = (length (visible out) \<le> length (visible s)
                    \<and> (length (visible out) = length (visible s) \<longrightarrow> out = s))"

definition same_visible :: "char \<Rightarrow> char \<Rightarrow> bool" where
  "same_visible a b = (b = a \<or> (\<not> is_space a \<and> \<not> is_space b))"

text \<open>A note with a tab, a run of blanks, blank lines and trailing white space.\<close>

definition example_note :: string where
  "example_note = [TAB] @ ''Daftar   hadir'' @ [LF, CHR '' '', LF, TAB, LF, LF] @ ''rapat warga '' @ [LF]"

text \<open>A line with an internal code in which the recognition read O for 0.\<close>

definition nomor_line :: string where
  "nomor_line = ''Nomor : 451/KS.O2.OO''"

section \<open>Properties\<close>

declare str_of_nat.simps [simp del]

text \<open>The same classes read off the eight bits of the character (bit 0 first), for
  evaluation.\<close>

lemma is_digit_code [code]:
  "is_digit (Char b0 b1 b2 b3 b4 b5 b6 b7) =
     (\<not> b7 \<and> \<not> b6 \<and> b5 \<and> b4 \<and> (\<not> b3 \<or> (\<not> b2 \<and> \<not> b1)))"
  by (cases b0; cases b1; cases b2; cases b3; cases b4; cases b5; cases b6; cases b7;
      simp add: is_digit_def)

lemma is_upper_code [code]:
  "is_upper (Char b0 b1 b2 b3 b4 b5 b6 b7) =
     (\<not> b7 \<and> b6 \<and> \<not> b5 \<and>
      (if b4 then (\<not> b3 \<or> (\<not> b2 \<and> \<not> (b1 \<and> b0))) else (b3 \<or> b2 \<or> b1 \<or> b0)))"
  by (cases b0; cases b1; cases b2; cases b3; cases b4; cases b5; cases b6; cases b7;
      simp add: is_upper_def)

lemma is_lower_code [code]:
  "is_lower (Char b0 b1 b2 b3 b4 b5 b6 b7) =
     (\<not> b7 \<and> b6 \<and> b5 \<and>
      (if b4 then (\<not> b3 \<or> (\<not> b2 \<and> \<not> (b1 \<and> b0))) else (b3 \<or> b2 \<or> b1 \<or> b0)))"
  by (cases b0; cases b1; cases b2; cases b3; cases b4; cases b5; cases b6; cases b7;
      simp add: is_lower_def)

lemma is_capital_code [code]:
  "is_capital (Char b0 b1 b2 b3 b4 b5 b6 b7) =
     (b6 \<and> \<not> b5 \<and>
      (if b7 then \<not> (b4 \<and> b2 \<and> b1 \<and> b0)
       else if b4 then (\<not> b3 \<or> (\<not> b2 \<and> \<not> (b1 \<and> b0))) else (b3 \<or> b2 \<or> b1 \<or> b0)))"
  by (cases b0; cases b1; cases b2; cases b3; cases b4; cases b5; cases b6; cases b7;
      simp add: is_capital_def is_upper_def between_def)

lemma is_small_code [code]:
  "is_small (Char b0 b1 b2 b3 b4 b5 b6 b7) =
     (if b7
      then (if b6 then (if b5 then \<not> (b4 \<and> \<not> b3 \<and> b2 \<and> b1 \<and> b0) else b4 \<and> b3 \<and> b2 \<and> b1 \<and> b0)
            else b5 \<and> ((b3 \<and> \<not> b2 \<and> b1 \<and> \<not> b0) \<or> (b4 \<and> \<not> b3 \<and> b2 \<and> \<not> b1 \<and> b0)))
      else b6 \<and> b5 \<and>
           (if b4 then (\<not> b3 \<or> (\<not> b2 \<and> \<not> (b1 \<and> b0))) else (b3 \<or> b2 \<or> b1 \<or> b0)))"
  by (cases b0; cases b1; cases b2; cases b3; cases b4; cases b5; cases b6; cases b7;
      simp add: is_small_def is_lower_def between_def)

lemma is_digit_like_code [code]:
  "is_digit_like (Char b0 b1 b2 b3 b4 b5 b6 b7) =
     (\<not> b6 \<and> b5 \<and> b4 \<and>
      (if b7 then (\<not> b3 \<and> \<not> b2 \<and> b1) \<or> (b3 \<and> \<not> b2 \<and> \<not> b1 \<and> b0)
       else (\<not> b3 \<or> (\<not> b2 \<and> \<not> b1))))"
  by (cases b0; cases b1; cases b2; cases b3; cases b4; cases b5; cases b6; cases b7;
      simp add: is_digit_like_def is_digit_def)

lemma is_word_code [code]:
  "is_word (Char b0 b1 b2 b3 b4 b5 b6 b7) =
     (is_alpha (Char b0 b1 b2 b3 b4 b5 b6 b7) \<or> is_digit_like (Char b0 b1 b2 b3 b4 b5 b6 b7)
      \<or> (b7 \<and> \<not> b6 \<and> b5 \<and> b4 \<and> b3 \<and> b2 \<and> \<not> (b1 \<and> b0))
      \<or> (\<not> b7 \<and> b6 \<and> \<not> b5 \<and> b4 \<and> b3 \<and> b2 \<and> b1 \<and> b0))"
  by (cases b0; cases b1; cases b2; cases b3; cases b4; cases b5; cases b6; cases b7;
      simp add: is_word_def between_def)

lemma is_space_code [code]:
  "is_space (Char b0 b1 b2 b3 b4 b5 b6 b7) =
     (if b7 then \<not> b6 \<and> \<not> b4 \<and> \<not> b3 \<and> \<not> b1 \<and> (if b5 then \<not> b2 \<and> \<not> b0 else b2 \<and> b0)
      else \<not> b6 \<and>
        (if b5 then \<not> b4 \<and> \<not> b3 \<and> \<not> b2 \<and> \<not> b1 \<and> \<not> b0
         else if b4 then b3 \<and> b2
         else b3 \<and> (if b2 then \<not> b1 else (b1 \<or> b0))))"
  by (cases b0; cases b1; cases b2; cases b3; cases b4; cases b5; cases b6; cases b7;
      simp add: is_space_def)

lemma is_linebreak_code [code]:
  "is_linebreak (Char b0 b1 b2 b3 b4 b5 b6 b7) =
     (if b7 then \<not> b6 \<and> \<not> b5 \<and> \<not> b4 \<and> \<not> b3 \<and> b2 \<and> \<not> b1 \<and> b0
      else \<not> b6 \<and> \<not> b5 \<and> b3 \<and>
        (if b4 then b2 \<and> \<not> (b1 \<and> b0) else (if b2 then \<not> b1 else b1)))"
  by (cases b0; cases b1; cases b2; cases b3; cases b4; cases b5; cases b6; cases b7;
      simp add: is_linebreak_def)

lemma to_upper_code [code]:
  "to_upper (Char b0 b1 b2 b3 b4 b5 b6 b7) =
     (if b6 \<and> b5 \<and>
         (if b7 then \<not> (b4 \<and> b2 \<and> b1 \<and> b0)
          else if b4 then (\<not> b3 \<or> (\<not> b2 \<and> \<not> (b1 \<and> b0))) else (b3 \<or> b2 \<or> b1 \<or> b0))
      then Char b0 b1 b2 b3 b4 False b6 b7
      else Char b0 b1 b2 b3 b4 b5 b6 b7)"
  by (cases b0; cases b1; cases b2; cases b3; cases b4; cases b5; cases b6; cases b7;
      simp add: to_upper_def is_lower_def between_def)

subsection \<open>Folder path\<close>

lemma str_of_nat_2024: "str_of_nat 2024 = ''2024''"
  by (simp add: str_of_nat.simps digit_char_def)

text \<open>
  Claim C9. The folder path is a function of the year, the type, the month and the slug
  alone: with a year and a month it has the four segments year, type, month, slug; with a
  year and no month the three segments year, type, slug; without a year the two segments
  type, slug, whatever the month. For the year 2024, the type \<^verbatim>\<open>masuk\<close>, the month
  \<^verbatim>\<open>Mei\<close> and the slug \<^verbatim>\<open>12-ab-01-02\<close> the path is \<^verbatim>\<open>2024/masuk/Mei/12-ab-01-02\<close>.
\<close>

theorem resolve_path_segments:
  "(y \<noteq> 0 \<and> b \<noteq> [] \<longrightarrow> resolve_path (Some y) j (Some b) slug = [str_of_nat y, j, b, slug])
   \<and> (y \<noteq> 0 \<longrightarrow> resolve_path (Some y) j None slug = [str_of_nat y, j, slug])
   \<and> resolve_path None j bulan slug = [j, slug]
   \<and> resolve_path (Some 2024) ''masuk'' (Some ''Mei'') ''12-ab-01-02''
       = [''2024'', ''masuk'', ''Mei'', ''12-ab-01-02'']
   \<and> resolve_path None ''masuk'' bulan ''12-ab-01-02'' = [''masuk'', ''12-ab-01-02'']"
  by (simp add: resolve_path_def truthy_def str_of_nat_2024)

theorem resolve_path_segments_witness:
  "resolve_path (Some 2024) ''keluar'' (Some ''Juni'') ''30-bm-02-02''
     = [''2024'', ''keluar'', ''Juni'', ''30-bm-02-02'']
   \<and> resolve_path (Some 2024) ''keluar'' None ''30-bm-02-02'' = [''2024'', ''keluar'', ''30-bm-02-02'']
   \<and> resolve_path None ''keluar'' (Some ''Juni'') ''30-bm-02-02'' = [''keluar'', ''30-bm-02-02'']"
  using resolve_path_segments [of 2024 "''Juni''" "''keluar''" "''30-bm-02-02''" "Some ''Juni''"]
  by (simp add: str_of_nat_2024)

subsection \<open>Quality score\<close>

lemma quality_check_ok: "ok \<Longrightarrow> quality_check ok w msg q = q\<lparr>score := score q + w\<rparr>"
  by (simp add: quality_check_def)

lemma text_penalty_warnings:
  "set (warnings (text_penalty n q)) \<subseteq>
     set (warnings q) \<union> {''Teks terekstrak sangat pendek (kualitas OCR buruk)'', ''Teks hasil OCR kurang lengkap''}"
  by (auto simp add: text_penalty_def)

lemma ocr_penalty_warnings:
  "w \<in> set (warnings (ocr_penalty show_rate r q)) \<Longrightarrow> w \<in> set (warnings q) \<or> hd w = CHR ''O''"
  by (auto simp add: ocr_penalty_def split: option.splits if_splits)

text \<open>
  Claim C8. A record with a number that is not empty and not the sentinel
  \<^verbatim>\<open>TANPA-NOMOR\<close>, a date, a year, the type \<^verbatim>\<open>masuk\<close> and no subject scores
  30 + 20 + 10 + 10 = 70 after the field checks, before the penalties for a short text
  and for a low recognition rate, and no warning is recorded; the penalties, whatever
  they are, add no warning about the subject.
\<close>

theorem quality_score_masuk_without_subject:
  assumes "truthy (nomor p)" and "nomor p \<noteq> Some ''TANPA-NOMOR''"
    and "truthy (tanggal_surat p)"
    and "tahun p = Some y" and "y \<noteq> 0"
    and "jenis p = ''masuk''"
    and "\<not> perihal_present p"
  shows "score (quality_fields used p) = 30 + 20 + 10 + 10
       \<and> score (quality_fields used p) = 70
       \<and> warnings (quality_fields used p) = []
       \<and> ''Perihal tidak terdeteksi (wajib untuk surat keluar)''
            \<notin> set (warnings (assess_quality show_rate p n used rate))"
proof -
  have fields: "quality_fields used p = \<lparr> score = 70, warnings = [], ocr_used = used \<rparr>"
    using assms by (simp add: quality_fields_def quality_check_ok)
  have "w \<in> set (warnings (assess_quality show_rate p n used rate)) \<Longrightarrow>
          w \<noteq> ''Perihal tidak terdeteksi (wajib untuk surat keluar)''" for w
  proof -
    assume "w \<in> set (warnings (assess_quality show_rate p n used rate))"
    then have "w \<in> set (warnings (text_penalty n (quality_fields used p))) \<or> hd w = CHR ''O''"
      unfolding assess_quality_def by (rule ocr_penalty_warnings)
    then show ?thesis
      using text_penalty_warnings [of n "quality_fields used p"] fields by auto
  qed
  then show ?thesis using fields by auto
qed

theorem quality_score_masuk_without_subject_witness:
  "truthy (nomor example_parsed) \<and> nomor example_parsed \<noteq> Some ''TANPA-NOMOR''
   \<and> truthy (tanggal_surat example_parsed) \<and> tahun example_parsed = Some 2024
   \<and> jenis example_parsed = ''masuk'' \<and> \<not> perihal_present example_parsed
   \<and> score (quality_fields False example_parsed) = 70
   \<and> warnings (quality_fields False example_parsed) = []"
proof -
  have h: "truthy (nomor example_parsed)" "nomor example_parsed \<noteq> Some ''TANPA-NOMOR''"
    "truthy (tanggal_surat example_parsed)" "tahun example_parsed = Some 2024" "(2024::nat) \<noteq> 0"
    "jenis example_parsed = ''masuk''" "\<not> perihal_present example_parsed"
    by (simp_all add: example_parsed_def truthy_def perihal_present_def get_perihal_def)
  from quality_score_masuk_without_subject [OF h, of False "\<lambda>r. []" 400 None] h
  show ?thesis by simp
qed

subsection \<open>Allowed types\<close>




subsection \<open>Number extractor: selection\<close>

lemma find_as_filter: "find P xs = (case filter P xs of [] \<Rightarrow> None | x # ys \<Rightarrow> Some x)"
  by (induction xs) auto

lemma best_candidate_first_of_highest: "best_candidate cs = first_of_highest_weight cs"
proof (cases "sort_by_confidence cs")
  case Nil
  then have "cs = []"
    by (metis sort_by_confidence_def length_sort list.size(3) length_0_conv)
  then show ?thesis
    by (simp add: best_candidate_def first_of_highest_weight_def sort_by_confidence_def)
next
  case (Cons c r)
  let ?f = "\<lambda>c::candidate. - int (snd c)"
  have s: "sort_key ?f cs = c # r" using Cons by (simp add: sort_by_confidence_def)
  have "sorted (map ?f (sort_key ?f cs))" by (rule sorted_sort_key)
  then have le: "\<forall>d \<in> set r. ?f c \<le> ?f d" using s by simp
  have "set cs = set (c # r)" using s by (metis set_sort)
  then have mx: "\<forall>d \<in> set cs. snd d \<le> snd c" using le by auto
  have "filter (\<lambda>y. ?f y = ?f c) (sort_key ?f cs) = filter (\<lambda>y. ?f y = ?f c) cs"
    by (rule sort_key_stable)
  then have st: "filter (\<lambda>y. ?f y = ?f c) cs = c # filter (\<lambda>y. ?f y = ?f c) r"
    using s by simp
  have "filter (\<lambda>c'. \<forall>d \<in> set cs. snd d \<le> snd c') cs = filter (\<lambda>y. ?f y = ?f c) cs"
  proof (rule filter_cong [OF refl])
    fix x assume x: "x \<in> set cs"
    have "c \<in> set cs" using \<open>set cs = set (c # r)\<close> by simp
    then show "(\<forall>d \<in> set cs. snd d \<le> snd x) = (?f x = ?f c)"
      using mx x by (auto intro: antisym)
  qed
  then have "find (\<lambda>c'. \<forall>d \<in> set cs. snd d \<le> snd c') cs = Some c"
    using st by (simp add: find_as_filter)
  then show ?thesis
    using Cons by (simp add: best_candidate_def first_of_highest_weight_def)
qed

lemma pattern_weight: "c \<in> set (pattern_candidates T) \<Longrightarrow> snd c = 95"
  by (auto simp add: pattern_candidates_def pattern_candidate_def Let_def split: option.splits if_splits)

lemma scan_weight: "c \<in> set (scan_candidates T) \<Longrightarrow> snd c \<in> {60, 65, 70, 75}"
  by (auto simp add: scan_candidates_def line_candidates_def token_candidate_def Let_def
      split: option.splits if_splits)

lemma filename_weight: "c \<in> set (filename_candidates fn) \<Longrightarrow> snd c = 50"
  by (auto simp add: filename_candidates_def split: option.splits if_splits list.splits)

lemma label_first:
  assumes "label_candidates (clean_text (preclean text)) = [(v, 100)]"
  shows "extract_nomor_surat text filename = Some v"
proof -
  let ?T = "clean_text (preclean text)"
  let ?rest = "pattern_candidates ?T @ scan_candidates ?T @ filename_candidates filename"
  have cs: "nomor_candidates text filename = (v, 100) # ?rest"
    using assms by (simp add: nomor_candidates_def Let_def)
  have "\<forall>d \<in> set ?rest. snd d \<le> 100"
    using pattern_weight [of _ ?T] scan_weight [of _ ?T] filename_weight [of _ filename] by fastforce
  then have "find (\<lambda>c. \<forall>d \<in> set ((v, 100) # ?rest). snd d \<le> snd c) ((v, 100) # ?rest) = Some (v, 100)"
    by simp
  then show ?thesis
    by (simp add: extract_nomor_surat_def best_candidate_first_of_highest first_of_highest_weight_def cs)
qed

lemma sm_letter_clean: "clean_text (preclean sm_letter) = sm_letter"
  by code_simp

lemma sm_letter_label: "label_candidates sm_letter = [(''12/SM/2024'', 100)]"
  by code_simp

lemma sm_filename_candidate: "filename_candidates (Some sm_filename) = [(''12-AB.01'', 50)]"
  by code_simp

text \<open>
  Claim C4. The number extractor runs all four strategies and appends their candidates to
  one list (label block, patterns, token scan, file name); one selection then returns the
  first candidate of the highest weight. So whenever the label block yields its candidate
  (weight 100) that candidate is returned, whatever the file name yields (weight 50).
\<close>

theorem label_block_candidate_wins:
  "nomor_candidates text filename =
     label_candidates (clean_text (preclean text)) @ pattern_candidates (clean_text (preclean text))
       @ scan_candidates (clean_text (preclean text)) @ filename_candidates filename
   \<and> extract_nomor_surat text filename = first_of_highest_weight (nomor_candidates text filename)
   \<and> (label_candidates (clean_text (preclean text)) = [(v, 100)] \<longrightarrow>
        extract_nomor_surat text filename = Some v)"
  using label_first [of "text" v filename]
  by (simp add: nomor_candidates_def Let_def extract_nomor_surat_def best_candidate_first_of_highest)

theorem label_block_candidate_wins_witness:
  "label_candidates (clean_text (preclean sm_letter)) = [(''12/SM/2024'', 100)]
   \<and> filename_candidates (Some sm_filename) = [(''12-AB.01'', 50)]
   \<and> extract_nomor_surat sm_letter (Some sm_filename) = Some ''12/SM/2024''"
proof -
  have l: "label_candidates (clean_text (preclean sm_letter)) = [(''12/SM/2024'', 100)]"
    by (simp add: sm_letter_clean sm_letter_label)
  have "extract_nomor_surat sm_letter (Some sm_filename) = Some ''12/SM/2024''"
    using label_block_candidate_wins [of sm_letter "Some sm_filename" "''12/SM/2024''"] l by blast
  then show ?thesis using l sm_filename_candidate by simp
qed

subsection \<open>No subject for outgoing letters\<close>

lemma jenis_parse_metadata_with:
  "jenis (parse_metadata_with subject ml text filename)
     = fst (detect_jenis ml text (extract_nomor_surat text filename) filename)"
  by (simp add: parse_metadata_with_def Let_def split: prod.splits)

lemma parse_metadata_with_keluar:
  assumes "fst (detect_jenis ml text (extract_nomor_surat text filename) filename) = ''keluar''"
  shows "perihal (parse_metadata_with subject ml text filename) = None"
    and "parse_metadata_with subject ml text filename = parse_metadata_with subject' ml text filename"
proof -
  obtain j c m where d: "detect_jenis ml text (extract_nomor_surat text filename) filename = (j, c, m)"
    by (cases "detect_jenis ml text (extract_nomor_surat text filename) filename")
  then have j: "j = ''keluar''" using assms by simp
  show "perihal (parse_metadata_with subject ml text filename) = None"
    by (simp add: parse_metadata_with_def Let_def d j)
  show "parse_metadata_with subject ml text filename = parse_metadata_with subject' ml text filename"
    by (simp add: parse_metadata_with_def Let_def d j)
qed

lemma doc_perihal_keluar: "jenis p = ''keluar'' \<Longrightarrow> doc_perihal (upload_record slugify p) = None"
  by (simp add: upload_record_def Let_def perihal_final_def split: prod.splits)

lemma kop_letter_clean: "clean_text kop_letter = kop_letter"
  by code_simp

lemma kop_letter_checks:
  "\<not> non_letter_keywords kop_letter \<and> has_nomor_label kop_letter
   \<and> has_kop_pela_mampang_top kop_letter \<and> \<not> is_recipient_pela_mampang kop_letter"
  by code_simp

lemma kop_letter_jenis: "detect_jenis ml kop_letter n filename = (''keluar'', 0.95, ''kop-pela-mampang'')"
  by (simp add: detect_jenis_def Let_def kop_letter_clean kop_letter_checks)

text \<open>
  Claim C2. Whenever \<^verbatim>\<open>parse_metadata\<close> classifies a text as \<^verbatim>\<open>keluar\<close>, the returned
  record has no key \<^verbatim>\<open>perihal\<close>, and the record is the same whatever the subject
  extractor would compute: the extractor has no part in it. The upload operation then
  stores no subject either.
\<close>

theorem keluar_has_no_perihal:
  assumes "jenis (parse_metadata ml text filename) = ''keluar''"
  shows "perihal (parse_metadata ml text filename) = None
       \<and> (\<forall>subject. parse_metadata_with subject ml text filename = parse_metadata ml text filename)
       \<and> perihal_final (parse_metadata ml text filename) = None
       \<and> doc_perihal (upload_document slugify ml text filename) = None"
proof -
  have k: "fst (detect_jenis ml text (extract_nomor_surat text filename) filename) = ''keluar''"
    using assms by (simp add: parse_metadata_def jenis_parse_metadata_with)
  show ?thesis
    using parse_metadata_with_keluar [OF k] assms doc_perihal_keluar [OF assms]
    by (auto simp add: parse_metadata_def upload_document_def perihal_final_def)
qed

theorem keluar_has_no_perihal_witness:
  "jenis (parse_metadata None kop_letter None) = ''keluar''
   \<and> perihal (parse_metadata None kop_letter None) = None
   \<and> doc_perihal (upload_document (\<lambda>s. s) None kop_letter None) = None"
proof -
  have k: "jenis (parse_metadata None kop_letter None) = ''keluar''"
    by (simp add: parse_metadata_def jenis_parse_metadata_with kop_letter_jenis)
  from keluar_has_no_perihal [OF k, of "\<lambda>s. s"] k show ?thesis by simp
qed

subsection \<open>OCR page pipeline\<close>

lemma ocr_page_counted:
  assumes "pg = RenderFails \<or> pg = Recognised None None"
  shows "filter nonblank (fst (ocr_page pg (chunks, st))) = filter nonblank chunks"
    and "snd (ocr_page pg (chunks, st)) = st\<lparr>failed_pages := failed_pages st + 1\<rparr>"
  using assms by (auto simp add: recognise_def nonblank_def)

lemma ocr_page_prepare:
  "filter nonblank (fst (ocr_page PrepareFails (chunks, st))) = filter nonblank chunks"
  "snd (ocr_page PrepareFails (chunks, st)) = st"
  by (simp_all add: nonblank_def)

lemma ocr_page_shift:
  "ocr_page pg (chunks, st\<lparr>failed_pages := failed_pages st + 1\<rparr>)
     = (fst (ocr_page pg (chunks, st)), (snd (ocr_page pg (chunks, st)))\<lparr>failed_pages := failed_pages (snd (ocr_page pg (chunks, st))) + 1\<rparr>)"
  by (cases pg) (auto simp add: Let_def split: prod.splits)

lemma ocr_page_chunks:
  "filter nonblank chunks = filter nonblank chunks' \<Longrightarrow>
     filter nonblank (fst (ocr_page pg (chunks, st))) = filter nonblank (fst (ocr_page pg (chunks', st)))
     \<and> snd (ocr_page pg (chunks, st)) = snd (ocr_page pg (chunks', st))"
  by (cases pg) (auto simp add: Let_def split: prod.splits)

lemma ocr_pages_rel:
  "filter nonblank chunks = filter nonblank chunks' \<Longrightarrow>
     filter nonblank (fst (ocr_pages pages (chunks', st\<lparr>failed_pages := failed_pages st + 1\<rparr>)))
       = filter nonblank (fst (ocr_pages pages (chunks, st)))
     \<and> snd (ocr_pages pages (chunks', st\<lparr>failed_pages := failed_pages st + 1\<rparr>))
       = (snd (ocr_pages pages (chunks, st)))\<lparr>failed_pages := failed_pages (snd (ocr_pages pages (chunks, st))) + 1\<rparr>"
proof (induction pages arbitrary: chunks chunks' st)
  case Nil
  then show ?case by (simp add: ocr_pages_def)
next
  case (Cons pg pages)
  obtain c1 s1 where a: "ocr_page pg (chunks, st) = (c1, s1)" by (cases "ocr_page pg (chunks, st)")
  obtain c2 s2 where b: "ocr_page pg (chunks', st) = (c2, s2)" by (cases "ocr_page pg (chunks', st)")
  have rel: "filter nonblank c1 = filter nonblank c2" "s1 = s2"
    using ocr_page_chunks [OF Cons.prems, of pg st] a b by simp_all
  have "ocr_page pg (chunks', st\<lparr>failed_pages := failed_pages st + 1\<rparr>)
          = (c2, s2\<lparr>failed_pages := failed_pages s2 + 1\<rparr>)"
    using ocr_page_shift [of pg chunks' st] b by simp
  then show ?case
    using Cons.IH [of c1 c2 s1] rel a by (simp add: ocr_pages_def)
qed


lemma ocr_page_total:
  "ocr_page pg (chunks, st\<lparr>total_pages := n\<rparr>)
     = (fst (ocr_page pg (chunks, st)), (snd (ocr_page pg (chunks, st)))\<lparr>total_pages := n\<rparr>)"
  by (cases pg) (auto simp add: Let_def split: prod.splits)

lemma ocr_pages_total:
  "ocr_pages pages (chunks, st\<lparr>total_pages := n\<rparr>)
     = (fst (ocr_pages pages (chunks, st)), (snd (ocr_pages pages (chunks, st)))\<lparr>total_pages := n\<rparr>)"
proof (induction pages arbitrary: chunks st)
  case Nil
  then show ?case by (simp add: ocr_pages_def)
next
  case (Cons pg pages)
  obtain c1 s1 where a: "ocr_page pg (chunks, st) = (c1, s1)" by (cases "ocr_page pg (chunks, st)")
  show ?case
    using Cons.IH [of c1 s1] ocr_page_total [where pg = pg and chunks = chunks and st = st and n = n] a
    by (simp add: ocr_pages_def)
qed

lemma ocr_pages_append: "ocr_pages (ps @ qs) s = ocr_pages qs (ocr_pages ps s)"
  by (simp add: ocr_pages_def)

lemma ocr_pages_chunks:
  "filter nonblank chunks = filter nonblank chunks' \<Longrightarrow>
     filter nonblank (fst (ocr_pages pages (chunks, st))) = filter nonblank (fst (ocr_pages pages (chunks', st)))
     \<and> snd (ocr_pages pages (chunks, st)) = snd (ocr_pages pages (chunks', st))"
proof (induction pages arbitrary: chunks chunks' st)
  case Nil
  then show ?case by (simp add: ocr_pages_def)
next
  case (Cons pg pages)
  obtain c1 s1 where a: "ocr_page pg (chunks, st) = (c1, s1)" by (cases "ocr_page pg (chunks, st)")
  obtain c2 s2 where b: "ocr_page pg (chunks', st) = (c2, s2)" by (cases "ocr_page pg (chunks', st)")
  have rel: "filter nonblank c1 = filter nonblank c2" "s1 = s2"
    using ocr_page_chunks [OF Cons.prems, of pg st] a b by simp_all
  show ?case using Cons.IH [OF rel(1), of s1] rel(2) a b by (simp add: ocr_pages_def)
qed

lemma ocr_pages_counted_page:
  assumes "pg = RenderFails \<or> pg = Recognised None None"
  shows "filter nonblank (fst (ocr_pages (ps @ pg # qs) (chunks, st)))
           = filter nonblank (fst (ocr_pages (ps @ qs) (chunks, st)))"
    and "snd (ocr_pages (ps @ pg # qs) (chunks, st))
           = (snd (ocr_pages (ps @ qs) (chunks, st)))
               \<lparr>failed_pages := failed_pages (snd (ocr_pages (ps @ qs) (chunks, st))) + 1\<rparr>"
proof -
  obtain c1 s1 where a: "ocr_pages ps (chunks, st) = (c1, s1)" by (cases "ocr_pages ps (chunks, st)")
  obtain c2 s2 where b: "ocr_page pg (c1, s1) = (c2, s2)" by (cases "ocr_page pg (c1, s1)")
  have f: "filter nonblank c1 = filter nonblank c2" and s: "s2 = s1\<lparr>failed_pages := failed_pages s1 + 1\<rparr>"
    using ocr_page_counted [OF assms, of c1 s1] b by simp_all
  have step: "ocr_pages (ps @ pg # qs) (chunks, st) = ocr_pages qs (c2, s1\<lparr>failed_pages := failed_pages s1 + 1\<rparr>)"
    using a b s by (simp add: ocr_pages_def)
  have base: "ocr_pages (ps @ qs) (chunks, st) = ocr_pages qs (c1, s1)"
    using a by (simp add: ocr_pages_def)
  show "filter nonblank (fst (ocr_pages (ps @ pg # qs) (chunks, st)))
           = filter nonblank (fst (ocr_pages (ps @ qs) (chunks, st)))"
    using ocr_pages_rel [OF f, of qs s1] step base by simp
  show "snd (ocr_pages (ps @ pg # qs) (chunks, st))
           = (snd (ocr_pages (ps @ qs) (chunks, st)))
               \<lparr>failed_pages := failed_pages (snd (ocr_pages (ps @ qs) (chunks, st))) + 1\<rparr>"
    using ocr_pages_rel [OF f, of qs s1] step base by simp
qed

lemma ocr_pages_prepare_page:
  "filter nonblank (fst (ocr_pages (ps @ PrepareFails # qs) (chunks, st)))
     = filter nonblank (fst (ocr_pages (ps @ qs) (chunks, st)))"
  "snd (ocr_pages (ps @ PrepareFails # qs) (chunks, st)) = snd (ocr_pages (ps @ qs) (chunks, st))"
proof -
  obtain c1 s1 where a: "ocr_pages ps (chunks, st) = (c1, s1)" by (cases "ocr_pages ps (chunks, st)")
  have f: "filter nonblank (c1 @ [[]]) = filter nonblank c1" by (simp add: nonblank_def)
  have step: "ocr_pages (ps @ PrepareFails # qs) (chunks, st) = ocr_pages qs (c1 @ [[]], s1)"
    using a by (simp add: ocr_pages_def)
  have base: "ocr_pages (ps @ qs) (chunks, st) = ocr_pages qs (c1, s1)"
    using a by (simp add: ocr_pages_def)
  show "filter nonblank (fst (ocr_pages (ps @ PrepareFails # qs) (chunks, st)))
     = filter nonblank (fst (ocr_pages (ps @ qs) (chunks, st)))"
    using ocr_pages_chunks [OF f, of qs s1] step base by simp
  show "snd (ocr_pages (ps @ PrepareFails # qs) (chunks, st)) = snd (ocr_pages (ps @ qs) (chunks, st))"
    using ocr_pages_chunks [OF f, of qs s1] step base by simp
qed

lemma ocr_page_counts:
  "success_pages (snd (ocr_page pg (chunks, st))) + failed_pages (snd (ocr_page pg (chunks, st)))
     = success_pages st + failed_pages st + (if pg = PrepareFails then 0 else 1)"
  by (cases pg) (auto simp add: Let_def split: prod.splits)

lemma ocr_pages_counts:
  "success_pages (snd (ocr_pages pages (chunks, st))) + failed_pages (snd (ocr_pages pages (chunks, st)))
     = success_pages st + failed_pages st + length (filter (\<lambda>pg. pg \<noteq> PrepareFails) pages)"
proof (induction pages arbitrary: chunks st)
  case Nil
  then show ?case by (simp add: ocr_pages_def)
next
  case (Cons pg pages)
  obtain c1 s1 where a: "ocr_page pg (chunks, st) = (c1, s1)" by (cases "ocr_page pg (chunks, st)")
  have "success_pages s1 + failed_pages s1
          = success_pages st + failed_pages st + (if pg = PrepareFails then 0 else 1)"
    using ocr_page_counts [of pg chunks st] a by simp
  then show ?case using Cons.IH [of c1 s1] a by (simp add: ocr_pages_def)
qed

lemma aggregate_nonblank: "aggregate chunks = join [LF] (filter nonblank chunks)"
proof -
  have "nonblank = (\<lambda>t. t \<noteq> [] \<and> strip t \<noteq> [])"
    by (auto simp add: fun_eq_iff nonblank_def)
  then show ?thesis by (simp add: aggregate_def)
qed

lemma ocr_page_error: "error (snd (ocr_page pg (chunks, st))) = error st"
  by (cases pg) (auto simp add: Let_def split: prod.splits)

lemma ocr_pages_error: "error (snd (ocr_pages pages (chunks, st))) = error st"
proof (induction pages arbitrary: chunks st)
  case Nil
  then show ?case by (simp add: ocr_pages_def)
next
  case (Cons pg pages)
  obtain c1 s1 where a: "ocr_page pg (chunks, st) = (c1, s1)" by (cases "ocr_page pg (chunks, st)")
  show ?case
    using Cons.IH [of c1 s1] ocr_page_error [of pg chunks st] a by (simp add: ocr_pages_def)
qed

text \<open>
  Claim C7, as the code has it. A page whose rendering or recognition raises adds no text:
  the text returned for the document is the text returned without that page, the count of
  successful pages is the same, every page is counted in \<^verbatim>\<open>total_pages\<close>, and no error
  is reported for the document. It adds one to \<^verbatim>\<open>failed_pages\<close> when \<^verbatim>\<open>get_pixmap\<close>
  raises or both recognition calls raise, but not when writing, opening or converting the
  image of the page raises: that page is counted neither as failed nor as successful, and
  the two counts no longer add up to the number of pages.
\<close>

theorem failing_page_skipped_not_always_counted:
  assumes "deps_available deps" and "raises pg"
  shows "fst (ocr_pdf_to_text deps lang d (Inr (ps @ pg # qs)))
           = fst (ocr_pdf_to_text deps lang d (Inr (ps @ qs)))
       \<and> success_pages (snd (ocr_pdf_to_text deps lang d (Inr (ps @ pg # qs))))
           = success_pages (snd (ocr_pdf_to_text deps lang d (Inr (ps @ qs))))
       \<and> total_pages (snd (ocr_pdf_to_text deps lang d (Inr (ps @ pg # qs))))
           = length ps + 1 + length qs
       \<and> error (snd (ocr_pdf_to_text deps lang d (Inr (ps @ pg # qs)))) = None
       \<and> failed_pages (snd (ocr_pdf_to_text deps lang d (Inr (ps @ pg # qs))))
           = failed_pages (snd (ocr_pdf_to_text deps lang d (Inr (ps @ qs))))
               + (if pg = PrepareFails then 0 else 1)
       \<and> (pg = PrepareFails \<longrightarrow>
            success_pages (snd (ocr_pdf_to_text deps lang d (Inr (ps @ pg # qs))))
              + failed_pages (snd (ocr_pdf_to_text deps lang d (Inr (ps @ pg # qs))))
            < total_pages (snd (ocr_pdf_to_text deps lang d (Inr (ps @ pg # qs)))))"
proof -
  let ?st0 = "\<lparr> total_pages = 0, success_pages = 0, failed_pages = 0, total_chars = 0,
                  dpi = d, language = lang, ocr_method = ''PyMuPDF + Pytesseract'',
                  error = None \<rparr>"
  obtain c1 s1 where a: "ocr_pages (ps @ qs) ([], ?st0) = (c1, s1)"
    by (cases "ocr_pages (ps @ qs) ([], ?st0)")
  obtain c2 s2 where b: "ocr_pages (ps @ pg # qs) ([], ?st0) = (c2, s2)"
    by (cases "ocr_pages (ps @ pg # qs) ([], ?st0)")
  have f: "filter nonblank c2 = filter nonblank c1"
    and s: "s2 = (if pg = PrepareFails then s1 else s1\<lparr>failed_pages := failed_pages s1 + 1\<rparr>)"
  proof -
    show "filter nonblank c2 = filter nonblank c1"
    proof (cases "pg = PrepareFails")
      case True
      then show ?thesis using ocr_pages_prepare_page(1) [of ps qs "[]" ?st0] a b by simp
    next
      case False
      then have "pg = RenderFails \<or> pg = Recognised None None" using assms(2) by (simp add: raises_def)
      then show ?thesis using ocr_pages_counted_page(1) [of pg ps qs "[]" ?st0] a b by simp
    qed
    show "s2 = (if pg = PrepareFails then s1 else s1\<lparr>failed_pages := failed_pages s1 + 1\<rparr>)"
    proof (cases "pg = PrepareFails")
      case True
      then show ?thesis using ocr_pages_prepare_page(2) [of ps qs "[]" ?st0] a b by simp
    next
      case False
      then have "pg = RenderFails \<or> pg = Recognised None None" using assms(2) by (simp add: raises_def)
      then show ?thesis using False ocr_pages_counted_page(2) [of pg ps qs "[]" ?st0] a b by simp
    qed
  qed
  have e: "error s1 = None"
    using ocr_pages_error [of "ps @ qs" "[]" ?st0] a by simp
  have n: "success_pages s2 + failed_pages s2 = length (filter (\<lambda>pg. pg \<noteq> PrepareFails) (ps @ pg # qs))"
    using ocr_pages_counts [of "ps @ pg # qs" "[]" ?st0] b by simp
  have "length (filter (\<lambda>pg. pg \<noteq> PrepareFails) ps) + length (filter (\<lambda>pg. pg \<noteq> PrepareFails) qs)
          \<le> length ps + length qs"
    by (intro add_mono length_filter_le)
  then have lt: "pg = PrepareFails \<Longrightarrow> success_pages s2 + failed_pages s2 < length ps + 1 + length qs"
    using n by (simp add: less_Suc_eq_le)
  have agg: "aggregate c2 = aggregate c1" using f by (simp add: aggregate_nonblank)
  have w: "ocr_pdf_to_text deps lang d (Inr (ps @ pg # qs))
             = (strip (aggregate c1),
                s2\<lparr>total_pages := length ps + 1 + length qs, total_chars := length (aggregate c1)\<rparr>)"
    using assms(1) b agg by (simp add: ocr_pdf_to_text_def deps_available_def Let_def ocr_pages_total)
  have wo: "ocr_pdf_to_text deps lang d (Inr (ps @ qs))
             = (strip (aggregate c1),
                s1\<lparr>total_pages := length ps + length qs, total_chars := length (aggregate c1)\<rparr>)"
    using assms(1) a by (simp add: ocr_pdf_to_text_def deps_available_def Let_def ocr_pages_total)
  show ?thesis
  proof (cases "pg = PrepareFails")
    case True
    then have "s2 = s1" using s by simp
    then show ?thesis unfolding w wo using True e lt by simp
  next
    case False
    then have "s2 = s1\<lparr>failed_pages := failed_pages s1 + 1\<rparr>" using s by simp
    then show ?thesis unfolding w wo using False e by simp
  qed
qed

theorem failing_page_skipped_not_always_counted_witness:
  "deps_available ocr_deps_ok \<and> raises PrepareFails
   \<and> ocr_pdf_to_text ocr_deps_ok ''ind'' 300
        (Inr [Recognised (Some ''Halaman satu'') None, PrepareFails, Recognised None (Some ''Halaman tiga'')])
       = (''Halaman satu'' @ [LF] @ ''Halaman tiga'',
          \<lparr> total_pages = 3, success_pages = 2, failed_pages = 0, total_chars = 25, dpi = 300,
            language = ''ind'', ocr_method = ''PyMuPDF + Pytesseract'', error = None \<rparr>)
   \<and> failed_pages (snd (ocr_pdf_to_text ocr_deps_ok ''ind'' 300
        (Inr ([Recognised (Some ''Halaman satu'') None] @ PrepareFails #
              [Recognised None (Some ''Halaman tiga'')]))))
       = failed_pages (snd (ocr_pdf_to_text ocr_deps_ok ''ind'' 300
        (Inr ([Recognised (Some ''Halaman satu'') None] @ [Recognised None (Some ''Halaman tiga'')]))))
   \<and> failed_pages (snd (ocr_pdf_to_text ocr_deps_ok ''ind'' 300
        (Inr ([Recognised (Some ''Halaman satu'') None] @ RenderFails #
              [Recognised None (Some ''Halaman tiga'')])))) = 1"
proof -
  have d: "deps_available ocr_deps_ok"
    by (simp add: deps_available_def ocr_deps_ok_def)
  have r: "raises PrepareFails" "raises RenderFails"
    by (simp_all add: raises_def)
  have two: "ocr_pdf_to_text ocr_deps_ok ''ind'' 300
        (Inr ([Recognised (Some ''Halaman satu'') None] @ [Recognised None (Some ''Halaman tiga'')]))
       = (''Halaman satu'' @ [LF] @ ''Halaman tiga'',
          \<lparr> total_pages = 2, success_pages = 2, failed_pages = 0, total_chars = 25, dpi = 300,
            language = ''ind'', ocr_method = ''PyMuPDF + Pytesseract'', error = None \<rparr>)"
    by code_simp
  have full: "ocr_pdf_to_text ocr_deps_ok ''ind'' 300
        (Inr [Recognised (Some ''Halaman satu'') None, PrepareFails, Recognised None (Some ''Halaman tiga'')])
       = (''Halaman satu'' @ [LF] @ ''Halaman tiga'',
          \<lparr> total_pages = 3, success_pages = 2, failed_pages = 0, total_chars = 25, dpi = 300,
            language = ''ind'', ocr_method = ''PyMuPDF + Pytesseract'', error = None \<rparr>)"
    by code_simp
  have same: "failed_pages (snd (ocr_pdf_to_text ocr_deps_ok ''ind'' 300
        (Inr ([Recognised (Some ''Halaman satu'') None] @ PrepareFails #
              [Recognised None (Some ''Halaman tiga'')]))))
       = failed_pages (snd (ocr_pdf_to_text ocr_deps_ok ''ind'' 300
        (Inr ([Recognised (Some ''Halaman satu'') None] @ [Recognised None (Some ''Halaman tiga'')]))))"
    using failing_page_skipped_not_always_counted [OF d r(1), where lang = "''ind''" and d = 300
        and ps = "[Recognised (Some ''Halaman satu'') None]"
        and qs = "[Recognised None (Some ''Halaman tiga'')]"]
    by simp
  have other: "failed_pages (snd (ocr_pdf_to_text ocr_deps_ok ''ind'' 300
        (Inr ([Recognised (Some ''Halaman satu'') None] @ RenderFails #
              [Recognised None (Some ''Halaman tiga'')])))) = 1"
    using failing_page_skipped_not_always_counted [OF d r(2), where lang = "''ind''" and d = 300
        and ps = "[Recognised (Some ''Halaman satu'') None]"
        and qs = "[Recognised None (Some ''Halaman tiga'')]"] two
    by simp
  show ?thesis using d r(1) full same other by simp
qed

subsection \<open>The end-to-end scenario\<close>

lemma scenario_text_clean: "clean_text scenario_text = scenario_clean"
  by code_simp

lemma scenario_text_preclean: "preclean scenario_text = scenario_text"
  by code_simp

lemma scenario_label: "label_candidates scenario_clean = [(''12/AB.01.02'', 100)]"
  by code_simp

lemma scenario_nomor: "extract_nomor_surat scenario_text filename = Some ''12/AB.01.02''"
  by (rule label_first) (simp add: scenario_text_preclean scenario_text_clean scenario_label)

lemma scenario_date_match:
  "map_option (\<lambda>m. (grp m 1, lower (grp m 2), grp m 3)) (re_search True False rx_date_id scenario_clean)
     = Some (''5'', ''mei'', ''2024'')"
  by code_simp

lemma digits_5: "int_of_digits ''5'' = 5"
  by code_simp

lemma digits_2024: "int_of_digits ''2024'' = 2024"
  by code_simp

lemma bulan_mei: "map_of BULAN_ID ''mei'' = Some 5"
  by code_simp

lemma scenario_tanggal: "extract_tanggal scenario_text = Some (Date 2024 5 5)"
proof -
  obtain m where m: "re_search True False rx_date_id scenario_clean = Some m"
    and g: "grp m 1 = ''5''" "lower (grp m 2) = ''mei''" "grp m 3 = ''2024''"
    using scenario_date_match by (cases "re_search True False rx_date_id scenario_clean") auto
  have "tanggal_id scenario_clean = Some (Date 2024 5 5)"
    using m g by (simp add: tanggal_id_def digits_5 digits_2024 bulan_mei mk_date_def days_in_month_def)
  then show ?thesis by (simp add: extract_tanggal_def scenario_text_clean)
qed

lemma strftime_5_mei: "strftime_dBY (Date 2024 5 5) = ''05 May 2024''"
  by (simp add: strftime_dBY_def pad2_def month_names_def str_of_nat_2024 str_of_nat.simps digit_char_def)

lemma scenario_jenis:
  "detect_jenis ml scenario_text (Some ''12/AB.01.02'') filename = (''keluar'', 0.90, ''nomor-pattern-keluar'')"
  by code_simp

lemma scenario_length: "length scenario_text = 63"
  by (simp add: scenario_text_def)

lemma scenario_parse:
  "parse_metadata_with subject ml scenario_text filename =
     \<lparr> nomor = Some ''12/AB.01.02'', tanggal_surat = Some ''05 May 2024'', tahun = Some 2024,
       jenis = ''keluar'', jenis_confidence = 0.90, jenis_method = ''nomor-pattern-keluar'',
       stats = \<lparr> fields_extracted = 4, total_fields = 5, text_length = 63, has_header = False,
                 has_signature = False, stats_jenis_confidence = 0.90,
                 stats_jenis_method = ''nomor-pattern-keluar'' \<rparr>,
       perihal = None \<rparr>"
  by (simp add: parse_metadata_with_def Let_def scenario_nomor scenario_tanggal scenario_jenis tanggal_str_of_def
      strftime_5_mei truthy_def scenario_length)

lemma scenario_perihal: "extract_perihal scenario_text filename = Some ''Undangan Rapat''"
proof -
  have "perihal_from_label scenario_clean = Some ''Undangan Rapat''"
    by code_simp
  then show ?thesis
    by (simp add: extract_perihal_def scenario_text_preclean scenario_text_clean)
qed

text \<open>
  Claim C1 fails as stated: on the scenario text the parser answers \<^verbatim>\<open>keluar\<close>, not
  \<^verbatim>\<open>masuk\<close>, because the number 12/AB.01.02 has the shape of an internal code; the
  record then has no subject; and the month of the date is printed by \<^verbatim>\<open>strftime\<close>
  as \<^verbatim>\<open>May\<close>.
\<close>

theorem scenario_is_not_masuk:
  "jenis (parse_metadata None scenario_text None) = ''keluar''
   \<and> perihal (parse_metadata None scenario_text None) = None
   \<and> tanggal_surat (parse_metadata None scenario_text None) = Some ''05 May 2024''
   \<and> \<not> (jenis (parse_metadata None scenario_text None) = ''masuk''
          \<and> nomor (parse_metadata None scenario_text None) = Some ''12/AB.01.02''
          \<and> tanggal_surat (parse_metadata None scenario_text None) = Some ''05 Mei 2024''
          \<and> tahun (parse_metadata None scenario_text None) = Some 2024
          \<and> perihal (parse_metadata None scenario_text None) = Some (Some ''Undangan Rapat''))"
  by (simp add: parse_metadata_def scenario_parse)

text \<open>
  Claim C1, amended. For the scenario text, with any file name and any statistical
  classifier, \<^verbatim>\<open>parse_metadata\<close> returns the number 12/AB.01.02, the date
  \<^verbatim>\<open>05 May 2024\<close>, the year 2024 and the type \<^verbatim>\<open>keluar\<close> with confidence 0.90 by the
  rule \<^verbatim>\<open>nomor-pattern-keluar\<close>; the record has no key \<^verbatim>\<open>perihal\<close>. The subject
  extractor on the same text finds \<^verbatim>\<open>Undangan Rapat\<close>.
\<close>

theorem scenario_parsed_as_keluar:
  "nomor (parse_metadata ml scenario_text filename) = Some ''12/AB.01.02''
   \<and> tanggal_surat (parse_metadata ml scenario_text filename) = Some ''05 May 2024''
   \<and> tahun (parse_metadata ml scenario_text filename) = Some 2024
   \<and> jenis (parse_metadata ml scenario_text filename) = ''keluar''
   \<and> jenis_confidence (parse_metadata ml scenario_text filename) = 0.90
   \<and> jenis_method (parse_metadata ml scenario_text filename) = ''nomor-pattern-keluar''
   \<and> perihal (parse_metadata ml scenario_text filename) = None
   \<and> extract_perihal scenario_text filename = Some ''Undangan Rapat''"
  by (simp add: parse_metadata_def scenario_parse scenario_perihal)

subsection \<open>Texts without a number label\<close>

text \<open>If a pattern matches with one continuation, it matches with every continuation that
  accepts at least as much.\<close>

lemma rep_m_mono:
  assumes "\<And>p s g. k p s g \<noteq> None \<Longrightarrow> k' p s g \<noteq> None"
  shows "rep_m t mn mx p s g k \<noteq> None \<Longrightarrow> rep_m t mn mx p s g k' \<noteq> None"
proof (induction s arbitrary: mn mx p)
  case Nil
  then show ?case using assms by (auto split: if_splits)
next
  case (Cons c cs)
  show ?case
  proof (cases "mx = Some 0 \<or> \<not> t c")
    case True
    then show ?thesis using Cons.prems assms by (auto split: if_splits)
  next
    case False
    show ?thesis
    proof (cases "rep_m t (mn - 1) (map_option (\<lambda>n. n - 1) mx) (Some c) cs g k")
      case None
      then show ?thesis using Cons.prems False assms by (auto split: if_splits option.splits)
    next
      case (Some r)
      then have "rep_m t (mn - 1) (map_option (\<lambda>n. n - 1) mx) (Some c) cs g k' \<noteq> None"
        using Cons.IH by simp
      then show ?thesis using False by (auto split: option.splits)
    qed
  qed
qed

lemma rmatch_mono:
  "(\<And>p s g. k p s g \<noteq> None \<Longrightarrow> k' p s g \<noteq> None) \<Longrightarrow>
     rmatch ic ds r p s g k \<noteq> None \<Longrightarrow> rmatch ic ds r p s g k' \<noteq> None"
proof (induction r arbitrary: p s g k k')
  case (Seq a b)
  have "rmatch ic ds a p s g (\<lambda>p' s' g'. rmatch ic ds b p' s' g' k') \<noteq> None"
  proof (rule Seq.IH(1) [where k = "\<lambda>p' s' g'. rmatch ic ds b p' s' g' k"])
    fix p' s' g' assume "rmatch ic ds b p' s' g' k \<noteq> None"
    then show "rmatch ic ds b p' s' g' k' \<noteq> None" using Seq.IH(2) Seq.prems(1) by blast
  next
    show "rmatch ic ds a p s g (\<lambda>p' s' g'. rmatch ic ds b p' s' g' k) \<noteq> None"
      using Seq.prems(2) by simp
  qed
  then show ?case by simp
next
  case (Alt a b)
  show ?case
  proof (cases "rmatch ic ds a p s g k")
    case None
    then have "rmatch ic ds b p s g k \<noteq> None" using Alt.prems(2) by simp
    then have "rmatch ic ds b p s g k' \<noteq> None" using Alt.IH(2) Alt.prems(1) by blast
    then show ?thesis by (auto split: option.splits)
  next
    case (Some x)
    then have "rmatch ic ds a p s g k' \<noteq> None" using Alt.IH(1) Alt.prems(1) by blast
    then show ?thesis by (auto split: option.splits)
  qed
next
  case (Rep mn mx a)
  then show ?case using rep_m_mono [of k k'] by simp
next
  case (Grp n r)
  have "rmatch ic ds r p s g (\<lambda>p' s' g'. k' p' s' ((n, take (length s - length s') s) # g')) \<noteq> None"
  proof (rule Grp.IH [where k = "\<lambda>p' s' g'. k p' s' ((n, take (length s - length s') s) # g')"])
    fix p' s' g' assume "k p' s' ((n, take (length s - length s') s) # g') \<noteq> None"
    then show "k' p' s' ((n, take (length s - length s') s) # g') \<noteq> None" using Grp.prems(1) by blast
  next
    show "rmatch ic ds r p s g (\<lambda>p' s' g'. k p' s' ((n, take (length s - length s') s) # g')) \<noteq> None"
      using Grp.prems(2) by simp
  qed
  then show ?case by simp
qed (auto split: list.splits if_splits)

lemma match_at_None: "(match_at ic ds r bef p s = None) = (rmatch ic ds r p s [] (\<lambda>p' s' g'. Some (s', g')) = None)"
  by (auto simp add: match_at_def split: option.splits)

lemma rx_nomor_label_token:
  "rmatch ic ds rx_nomor_label p s g k
     = rmatch ic ds rx_nomor_token p s g
         (\<lambda>p' s' g'. rmatch ic ds
            (seqs [Star (Cls [WS]), Star (Cls [C CHR '':'', C CHR ''='', C CHR ''.'', C CHR ''-'']),
                   Star (Cls [WS]), One (Cls [AZ, Az, D09])]) p' s' g' k)"
  by (simp add: rx_nomor_label_def rx_nomor_token_def)

lemma match_label_token:
  "match_at ic ds rx_nomor_label bef p s \<noteq> None \<Longrightarrow> match_at ic ds rx_nomor_token bef p s \<noteq> None"
  unfolding match_at_None rx_nomor_label_token
  by (rule rmatch_mono [rotated]) auto

lemma search_label_token:
  "search_go ic ds rx_nomor_label bef p s \<noteq> None \<Longrightarrow> search_go ic ds rx_nomor_token bef p s \<noteq> None"
proof (induction s arbitrary: bef p)
  case Nil
  then show ?case using match_label_token by simp
next
  case (Cons c cs)
  show ?case
  proof (cases "match_at ic ds rx_nomor_label bef p (c # cs)")
    case None
    then have "search_go ic ds rx_nomor_label (c # bef) (Some c) cs \<noteq> None" using Cons.prems by simp
    then have "search_go ic ds rx_nomor_token (c # bef) (Some c) cs \<noteq> None" by (rule Cons.IH)
    then show ?thesis by (auto split: option.splits)
  next
    case (Some m)
    then have "match_at ic ds rx_nomor_token bef p (c # cs) \<noteq> None"
      using match_label_token [of ic ds bef p "c # cs"] by simp
    then show ?thesis by (auto split: option.splits)
  qed
qed

lemma label_needs_token: "has_nomor_label T \<Longrightarrow> has_nomor_token T"
  by (simp add: has_nomor_label_def has_nomor_token_def re_search_def search_label_token)

lemma paparan_clean: "clean_text paparan_text = paparan_text"
  by code_simp

lemma paparan_checks:
  "non_letter_keywords paparan_text \<and> \<not> has_nomor_token paparan_text
   \<and> \<not> contains (lower paparan_text) ''no''"
  by code_simp

text \<open>
  Claim C3 fails as stated: the text \<^verbatim>\<open>PAPARAN\<close> has no token \<^verbatim>\<open>Nomor\<close> or
  \<^verbatim>\<open>No\<close> (it does not even contain the letters \<^verbatim>\<open>no\<close>), and the classifier
  answers with confidence 0.90 by the rule \<^verbatim>\<open>non-letter-keywords\<close>, which is checked
  first.
\<close>

theorem paparan_is_not_no_nomor_label:
  "\<not> has_nomor_token (clean_text paparan_text)
   \<and> \<not> has_nomor_token paparan_text
   \<and> \<not> contains (lower paparan_text) ''no''
   \<and> detect_jenis None paparan_text None None = (''lainnya'', 0.90, ''non-letter-keywords'')
   \<and> detect_jenis None paparan_text None None \<noteq> (''lainnya'', 0.85, ''no-nomor-label'')"
  by (simp add: detect_jenis_def Let_def paparan_clean paparan_checks)

text \<open>
  Claim C3, amended. For every text whose cleaned form shows none of the non-letter
  keywords in its first 500 characters and contains no token \<^verbatim>\<open>Nomor\<close> or \<^verbatim>\<open>No\<close>, the
  classifier returns \<^verbatim>\<open>("lainnya", 0.85, "no-nomor-label")\<close>, whatever the number, the
  file name and the statistical classifier are. A text with one of the non-letter
  keywords there gets \<^verbatim>\<open>("lainnya", 0.90, "non-letter-keywords")\<close> instead.
\<close>

theorem no_nomor_token_is_lainnya:
  "(\<not> non_letter_keywords (clean_text text) \<and> \<not> has_nomor_token (clean_text text) \<longrightarrow>
      detect_jenis ml text n filename = (''lainnya'', 0.85, ''no-nomor-label''))
   \<and> (non_letter_keywords (clean_text text) \<longrightarrow>
      detect_jenis ml text n filename = (''lainnya'', 0.90, ''non-letter-keywords''))"
  using label_needs_token [of "clean_text text"]
  by (auto simp add: detect_jenis_def Let_def)

lemma prose_clean: "clean_text prose_text = prose_text"
  by code_simp

lemma prose_checks: "\<not> non_letter_keywords prose_text \<and> \<not> has_nomor_token prose_text"
  by code_simp

lemma modul_checks: "non_letter_keywords (clean_text ''MODUL pelatihan arsip'')"
  by code_simp

theorem no_nomor_token_is_lainnya_witness:
  "\<not> non_letter_keywords (clean_text prose_text) \<and> \<not> has_nomor_token (clean_text prose_text)
   \<and> detect_jenis None prose_text (Some ''12/SM/2024'') (Some ''surat masuk.pdf'')
       = (''lainnya'', 0.85, ''no-nomor-label'')
   \<and> non_letter_keywords (clean_text ''MODUL pelatihan arsip'')
   \<and> detect_jenis None ''MODUL pelatihan arsip'' None None
       = (''lainnya'', 0.90, ''non-letter-keywords'')"
  using no_nomor_token_is_lainnya [of prose_text None "Some ''12/SM/2024''" "Some ''surat masuk.pdf''"]
    no_nomor_token_is_lainnya [of "''MODUL pelatihan arsip''" None None None]
  by (simp add: prose_clean prose_checks modul_checks)

subsection \<open>Format of the date\<close>

lemma tanggal_surat_parse:
  "tanggal_surat (parse_metadata ml t filename) = tanggal_str_of (extract_tanggal t)"
  by (simp add: parse_metadata_def parse_metadata_with_def Let_def split: prod.splits)

lemma first_of_month_clean: "clean_text first_of_month_text = first_of_month_text"
  by code_simp

lemma first_of_month_match:
  "map_option (\<lambda>m. (grp m 1, lower (grp m 2), grp m 3)) (re_search True False rx_date_id first_of_month_text)
     = Some (''1'', ''mei'', ''2024'')"
  by code_simp

lemma digits_1: "int_of_digits ''1'' = 1"
  by code_simp

lemma first_of_month_id: "tanggal_id first_of_month_text = Some (Date 2024 5 1)"
proof -
  obtain m where m: "re_search True False rx_date_id first_of_month_text = Some m"
    and g: "grp m 1 = ''1''" "lower (grp m 2) = ''mei''" "grp m 3 = ''2024''"
    using first_of_month_match by (cases "re_search True False rx_date_id first_of_month_text") auto
  show ?thesis
    using m g by (simp add: tanggal_id_def digits_1 digits_2024 bulan_mei mk_date_def days_in_month_def)
qed

lemma year_only_clean: "clean_text year_only_text = year_only_text"
  by code_simp

lemma year_only_patterns:
  "re_search True False rx_date_id year_only_text = None
   \<and> re_search False False rx_date_numeric year_only_text = None
   \<and> re_search True False rx_date_label year_only_text = None
   \<and> map_option (\<lambda>m. grp m 1) (re_search False False rx_year_only year_only_text) = Some ''2024''"
  by code_simp

lemma year_only_fallback:
  "tanggal_id year_only_text = None \<and> tanggal_numeric year_only_text = None
   \<and> tanggal_label year_only_text = None \<and> tanggal_year_only year_only_text = Some (Date 2024 1 1)"
proof -
  obtain m where m: "re_search False False rx_year_only year_only_text = Some m"
    and g: "grp m 1 = ''2024''"
    using year_only_patterns by (cases "re_search False False rx_year_only year_only_text") auto
  show ?thesis
    using m g year_only_patterns
    by (simp add: tanggal_id_def tanggal_numeric_def tanggal_label_def tanggal_year_only_def
        digits_2024 mk_date_def days_in_month_def)
qed

text \<open>
  Claim C6 at the text \<^verbatim>\<open>Tanggal: 1 Mei 2024\<close>: the first date pattern finds the day 1
  of May 2024, and the record holds the year alone, the same string as for the text
  \<^verbatim>\<open>Tahun 2024\<close>, where only the bare-year fallback fires. No month can be read from
  that string.
\<close>

theorem first_of_month_formatted_as_year:
  "tanggal_id (clean_text first_of_month_text) = Some (Date 2024 5 1)
   \<and> extract_tanggal first_of_month_text = Some (Date 2024 5 1)
   \<and> tanggal_surat (parse_metadata ml first_of_month_text filename) = Some ''2024''
   \<and> tanggal_id (clean_text year_only_text) = None
   \<and> tanggal_numeric (clean_text year_only_text) = None
   \<and> tanggal_label (clean_text year_only_text) = None
   \<and> tanggal_surat (parse_metadata ml year_only_text filename) = Some ''2024''
   \<and> extract_bulan (Some ''2024'') = None"
proof -
  have a: "extract_tanggal first_of_month_text = Some (Date 2024 5 1)"
    by (simp add: extract_tanggal_def first_of_month_clean first_of_month_id)
  have b: "extract_tanggal year_only_text = Some (Date 2024 1 1)"
    by (simp add: extract_tanggal_def year_only_clean year_only_fallback)
  have c: "extract_bulan (Some ''2024'') = None"
    by code_simp
  show ?thesis
    using a b c year_only_fallback
    by (simp add: tanggal_surat_parse tanggal_str_of_def strftime_Y_def str_of_nat_2024
        first_of_month_clean first_of_month_id year_only_clean)
qed

subsection \<open>Idempotence of the text normaliser\<close>

lemma startswith_set: "startswith s old \<Longrightarrow> set old \<subseteq> set s"
  by (induction s old rule: startswith.induct) auto

lemma replace_go_absent: "c \<in> set old \<Longrightarrow> c \<notin> set t \<Longrightarrow> replace_go old new 0 t = t"
proof (induction t)
  case Nil
  then show ?case by simp
next
  case (Cons x xs)
  have "\<not> startswith (x # xs) old"
    using Cons.prems startswith_set [of "x # xs" old] by auto
  then show ?case using Cons by simp
qed

lemma replace_absent: "c \<in> set old \<Longrightarrow> c \<notin> set t \<Longrightarrow> replace old new t = t"
  by (auto simp add: replace_def replace_go_absent)

lemma rep_m_none:
  "(\<And>p' s' g'. set s' \<subseteq> set s \<Longrightarrow> k p' s' g' = None) \<Longrightarrow> rep_m t mn mx p s g k = None"
proof (induction s arbitrary: mn mx p)
  case Nil
  then show ?case by simp
next
  case (Cons c cs)
  have "rep_m t (mn - 1) (map_option (\<lambda>n. n - 1) mx) (Some c) cs g k = None"
    by (rule Cons.IH) (rule Cons.prems, auto)
  then show ?case using Cons.prems [of "c # cs"] by simp
qed

lemma rmatch_none:
  "(\<And>p' s' g'. set s' \<subseteq> set s \<Longrightarrow> k p' s' g' = None) \<Longrightarrow> rmatch ic ds r p s g k = None"
proof (induction r arbitrary: p s g k)
  case (One a)
  then show ?case by (cases s) auto
next
  case (Seq a b)
  show ?case
    unfolding rmatch.simps
  proof (rule Seq.IH(1))
    fix p' s' g' assume s': "set s' \<subseteq> set s"
    show "rmatch ic ds b p' s' g' k = None"
    proof (rule Seq.IH(2))
      fix p'' s'' g'' assume "set s'' \<subseteq> set s'"
      then show "k p'' s'' g'' = None" using s' Seq.prems by blast
    qed
  qed
next
  case (Alt a b)
  then show ?case by simp
next
  case (Rep mn mx a)
  show ?case
    unfolding rmatch.simps
    by (rule rep_m_none) (rule Rep.prems)
next
  case (Grp n r)
  show ?case
    unfolding rmatch.simps
    by (rule Grp.IH) (rule Grp.prems)
qed auto

lemma rep_m_needs:
  "0 < mn \<Longrightarrow> (\<And>c. t c \<Longrightarrow> c \<in> A) \<Longrightarrow> set s \<inter> A = {} \<Longrightarrow> rep_m t mn mx p s g k = None"
  by (cases s) auto

lemma rmatch_needs:
  "needs ic ds A r \<Longrightarrow> set s \<inter> A = {} \<Longrightarrow> rmatch ic ds r p s g k = None"
proof (induction r arbitrary: p s g k)
  case (One a)
  then show ?case by (cases s) auto
next
  case (Seq a b)
  show ?case
  proof (cases "needs ic ds A a")
    case True
    then show ?thesis using Seq.IH(1) Seq.prems(2) by simp
  next
    case False
    then have b: "needs ic ds A b" using Seq.prems(1) by simp
    show ?thesis
      unfolding rmatch.simps
    proof (rule rmatch_none)
      fix p' s' g' assume "set s' \<subseteq> set s"
      then have "set s' \<inter> A = {}" using Seq.prems(2) by auto
      then show "rmatch ic ds b p' s' g' k = None" using Seq.IH(2) b by simp
    qed
  qed
next
  case (Alt a b)
  then show ?case by simp
next
  case (Rep mn mx a)
  then show ?case using rep_m_needs [of mn "atom_ok ic ds a" A s] by simp
next
  case (Grp n r)
  then show ?case by simp
qed auto

lemma match_at_needs: "needs ic ds A r \<Longrightarrow> set s \<inter> A = {} \<Longrightarrow> match_at ic ds r bef p s = None"
  by (simp add: match_at_def rmatch_needs)

lemma sub_go_no_match:
  "(\<And>p' s'. set s' \<subseteq> set s \<Longrightarrow> match_at ic ds r [] p' s' = None) \<Longrightarrow> sub_go ic ds r f 0 p s = s"
proof (induction s arbitrary: p)
  case Nil
  then show ?case by simp
next
  case (Cons c cs)
  have "sub_go ic ds r f 0 (Some c) cs = cs"
    by (rule Cons.IH) (rule Cons.prems, auto)
  then show ?case using Cons.prems [of "c # cs" p] by simp
qed

lemma re_sub_needs: "needs ic ds A r \<Longrightarrow> set s \<inter> A = {} \<Longrightarrow> re_sub ic ds r f s = s"
  unfolding re_sub_def
  by (rule sub_go_no_match) (rule match_at_needs, auto)

lemma separator_bits: "Char b0 b1 b2 b3 b4 b5 True b7 \<notin> separators"
  by (simp add: separators_def)

lemma to_lower_separator:
  assumes "to_lower c \<in> separators"
  shows "c \<in> separators"
proof (cases c)
  case (Char b0 b1 b2 b3 b4 b5 b6 b7)
  show ?thesis
  proof (cases "is_capital c")
    case True
    then have "b6" using Char by (simp add: is_capital_code)
    then have "to_lower c = Char b0 b1 b2 b3 b4 True True b7"
      using True Char by (simp add: to_lower_def)
    then show ?thesis using assms separator_bits by simp
  next
    case False
    then show ?thesis using assms by (simp add: to_lower_def)
  qed
qed

lemma to_upper_separator:
  assumes "to_upper c \<in> separators"
  shows "c \<in> separators"
proof (cases c)
  case (Char b0 b1 b2 b3 b4 b5 b6 b7)
  show ?thesis
  proof (cases "to_upper c = c")
    case True
    then show ?thesis using assms by simp
  next
    case False
    then have "b6 \<and> to_upper c = Char b0 b1 b2 b3 b4 False b6 b7"
      using Char by (simp add: to_upper_code split: if_splits)
    then show ?thesis using assms separator_bits by simp
  qed
qed

lemma needs_left: "needs ic ds A a \<Longrightarrow> needs ic ds A (Seq a b)"
  by simp

lemma needs_right: "needs ic ds A b \<Longrightarrow> needs ic ds A (Seq a b)"
  by simp

lemma needs_slash: "needs ic ds separators (One (Lit CHR ''/''))"
proof -
  have l: "to_lower CHR ''/'' = CHR ''/''"
    by (simp add: to_lower_def is_capital_code)
  have "c \<in> separators" if "atom_ok ic ds (Lit CHR ''/'') c" for c
  proof -
    have "c = CHR ''/'' \<or> to_lower c = CHR ''/''" using that l by auto
    then have "c \<in> separators \<or> to_lower c \<in> separators" by (auto simp add: separators_def)
    then show ?thesis using to_lower_separator by blast
  qed
  then show ?thesis by simp
qed

lemma needs_separator_class:
  "needs ic ds separators (One (Cls [C CHR ''-'', C CHR ''/'', C CHR ''.'']))"
proof -
  have "c \<in> separators" if "in_class ic [C CHR ''-'', C CHR ''/'', C CHR ''.''] c" for c
  proof -
    have "c \<in> separators \<or> to_lower c \<in> separators \<or> to_upper c \<in> separators"
      using that by (auto simp add: in_class_def separators_def)
    then show ?thesis using to_lower_separator to_upper_separator by blast
  qed
  then show ?thesis by simp
qed

lemma needs_digit_backslash: "needs False False separators rx_digit_backslash"
  unfolding rx_digit_backslash_def seqs.simps
  by (intro needs_right) (rule needs_slash)

lemma needs_apostrophe: "needs False False separators rx_apostrophe"
  unfolding rx_apostrophe_def seqs.simps
  by (intro needs_right) (rule needs_slash)

lemma needs_fix_nomor: "needs True False separators rx_fix_nomor"
  unfolding rx_fix_nomor_def seqs.simps
  by (rule needs_right, rule needs_right, rule needs_left) (rule needs_separator_class)

lemma replacements_absent:
  assumes "set t \<inter> separators = {}"
  shows "foldl (\<lambda>t (old, new). replace old new t) t replacements = t"
proof -
  have s: "CHR ''/'' \<notin> set t" using assms by (auto simp add: separators_def)
  have r: "replace old new t = t" if "CHR ''/'' \<in> set old" for old new
    using that s by (rule replace_absent)
  show ?thesis by (simp add: replacements_def r)
qed

lemma clean_text_without_separators:
  assumes "set t \<inter> separators = {}"
  shows "clean_text t = whitespace_normal t"
proof (cases "t = []")
  case True
  then show ?thesis by (simp add: clean_text_def whitespace_normal_def re_sub_def match_at_def
        rx_blanks_def rx_blank_lines_def strip_def)
next
  case False
  then show ?thesis
    using assms
    by (simp add: clean_text_def whitespace_normal_def Let_def replacements_absent
        re_sub_needs [OF needs_digit_backslash] re_sub_needs [OF needs_apostrophe]
        re_sub_needs [OF needs_fix_nomor])
qed

lemma rep_m_accepting:
  "rep_m t mn None p s g (\<lambda>p' s' g'. Some (s', g'))
     = (if mn \<le> length (takeWhile t s) then Some (dropWhile t s, g) else None)"
proof (induction s arbitrary: mn p)
  case Nil
  then show ?case by simp
next
  case (Cons c cs)
  show ?case
  proof (cases "t c")
    case True
    then show ?thesis using Cons.IH [of "mn - 1" "Some c"] by (auto split: option.splits)
  next
    case False
    then show ?thesis by simp
  qed
qed

lemma take_length_dropWhile: "take (length s - length (dropWhile t s)) s = takeWhile t s"
  by (induction s) (auto simp add: Suc_diff_le length_dropWhile_le)

lemma sub_go_skip:
  "a \<noteq> [] \<Longrightarrow> sub_go ic ds r f (length a) p (a @ b) = sub_go ic ds r f 0 (Some (last a)) b"
proof (induction a arbitrary: p)
  case Nil
  then show ?case by simp
next
  case (Cons c cs)
  then show ?case by (cases cs) auto
qed

lemma sub_go_step:
  assumes "match_at ic ds r [] p s = Some m" and "m_text m \<noteq> []" and "s = m_text m @ m_after m"
  shows "sub_go ic ds r f 0 p s = f m @ sub_go ic ds r f 0 (Some (last (m_text m))) (m_after m)"
proof -
  obtain c a where mt: "m_text m = c # a" using assms(2) by (cases "m_text m") auto
  then have s: "s = c # (a @ m_after m)" using assms(3) by simp
  show ?thesis
  proof (cases "a = []")
    case True
    then show ?thesis using assms(1) mt s by simp
  next
    case False
    then have "sub_go ic ds r f (length a) (Some c) (a @ m_after m)
                 = sub_go ic ds r f 0 (Some (last a)) (m_after m)"
      by (rule sub_go_skip)
    then show ?thesis using assms(1) mt s False by simp
  qed
qed

lemma sub_go_copy:
  "match_at ic ds r [] p (c # cs) = None \<Longrightarrow> sub_go ic ds r f 0 p (c # cs) = c # sub_go ic ds r f 0 (Some c) cs"
  by simp

lemma set_sub_go: "set (sub_go ic ds r (\<lambda>m. v) n p s) \<subseteq> set s \<union> set v"
proof (induction s arbitrary: n p)
  case Nil
  then show ?case by (auto split: option.splits)
next
  case (Cons c cs)
  show ?case
    using Cons.IH [of 0 "Some c"] Cons.IH [of "n - 1" "Some c"]
      Cons.IH [of "length (m_text (the (match_at ic ds r [] p (c # cs)))) - 1" "Some c"]
    by (auto split: option.splits)
qed

lemma set_strip: "set (strip s) \<subseteq> set s"
proof -
  have "set (dropWhile is_space (rev (dropWhile is_space s))) \<subseteq> set (rev (dropWhile is_space s))"
    by (meson set_dropWhileD subsetI)
  moreover have "set (dropWhile is_space s) \<subseteq> set s"
    by (meson set_dropWhileD subsetI)
  ultimately show ?thesis by (auto simp add: strip_def)
qed

lemma dropWhile_id: "xs \<noteq> [] \<Longrightarrow> \<not> P (hd xs) \<Longrightarrow> dropWhile P xs = xs"
  by (cases xs) auto

lemma strip_fixed: "(s = [] \<or> (\<not> is_space (hd s) \<and> \<not> is_space (last s))) \<Longrightarrow> strip s = s"
proof (cases "s = []")
  case True
  then show ?thesis by (simp add: strip_def)
next
  case False
  assume "s = [] \<or> (\<not> is_space (hd s) \<and> \<not> is_space (last s))"
  then have h: "\<not> is_space (hd s)" and l: "\<not> is_space (last s)" using False by auto
  have a: "dropWhile is_space s = s" using False h by (rule dropWhile_id)
  have "hd (rev s) = last s" using False by (simp add: hd_rev)
  then have "\<not> is_space (hd (rev s))" using l by simp
  moreover have "rev s \<noteq> []" using False by simp
  ultimately have b: "dropWhile is_space (rev s) = rev s" using dropWhile_id by blast
  show ?thesis by (simp add: strip_def a b)
qed

lemma strip_shape: "strip s = [] \<or> (\<not> is_space (hd (strip s)) \<and> \<not> is_space (last (strip s)))"
proof -
  let ?a = "dropWhile is_space s"
  let ?b = "dropWhile is_space (rev ?a)"
  have s: "strip s = rev ?b" by (simp add: strip_def)
  show ?thesis
  proof (cases "?b = []")
    case True
    then show ?thesis using s by simp
  next
    case False
    then have hb: "\<not> is_space (hd ?b)" by (metis hd_dropWhile)
    have "?a \<noteq> []"
    proof
      assume "?a = []"
      then have "?b = []" by (simp only: rev.simps(1) dropWhile.simps(1))
      then show False using False by simp
    qed
    then have ha: "\<not> is_space (hd ?a)" by (metis hd_dropWhile)
    have "rev ?a = takeWhile is_space (rev ?a) @ ?b" by simp
    then have "?a = rev ?b @ rev (takeWhile is_space (rev ?a))"
      by (metis rev_append rev_rev_ident)
    then have "hd ?a = hd (rev ?b)" using False by (metis hd_append2 rev_is_Nil_conv)
    then have "\<not> is_space (hd (rev ?b))" using ha by simp
    moreover have "last (rev ?b) = hd ?b" using False by (simp add: last_rev)
    ultimately show ?thesis using s hb by simp
  qed
qed

lemma strip_strip: "strip (strip s) = strip s"
  using strip_shape [of s] by (rule strip_fixed)

lemma strip_infix: "\<exists>a b. s = a @ strip s @ b"
proof -
  let ?a = "dropWhile is_space s"
  have 1: "s = takeWhile is_space s @ ?a" by simp
  have "rev ?a = takeWhile is_space (rev ?a) @ dropWhile is_space (rev ?a)" by simp
  then have "?a = rev (dropWhile is_space (rev ?a)) @ rev (takeWhile is_space (rev ?a))"
    by (metis rev_append rev_rev_ident)
  then have "?a = strip s @ rev (takeWhile is_space (rev ?a))" by (simp add: strip_def)
  then show ?thesis using 1 by metis
qed

lemma atom_blank: "atom_ok False False (Cls [C CHR '' '', C TAB]) = is_blank"
  by (auto simp add: fun_eq_iff in_class_def is_blank_def)

lemma match_blanks:
  "match_at False False rx_blanks bef p s
     = (if takeWhile is_blank s \<noteq> [] then Some (rev bef, takeWhile is_blank s, dropWhile is_blank s, [])
        else None)"
proof -
  have "(1 \<le> length (takeWhile is_blank s)) = (takeWhile is_blank s \<noteq> [])"
    by (cases "takeWhile is_blank s") auto
  then show ?thesis
    by (simp add: match_at_def rx_blanks_def atom_blank rep_m_accepting take_length_dropWhile)
qed

lemma collapse_blanks_Nil: "collapse_blanks p [] = []"
  by (simp add: collapse_blanks_def match_blanks)

lemma collapse_blanks_keep:
  "\<not> is_blank c \<Longrightarrow> collapse_blanks p (c # cs) = c # collapse_blanks (Some c) cs"
  by (simp add: collapse_blanks_def match_blanks)

lemma collapse_blanks_run:
  assumes "is_blank c"
  shows "\<exists>q. collapse_blanks p (c # cs) = CHR '' '' # collapse_blanks q (dropWhile is_blank cs)"
proof -
  let ?m = "([], c # takeWhile is_blank cs, dropWhile is_blank cs, []) :: rx_match"
  have m: "match_at False False rx_blanks [] p (c # cs) = Some ?m"
    using assms by (simp add: match_blanks)
  have "sub_go False False rx_blanks (\<lambda>m. '' '') 0 p (c # cs)
          = '' '' @ sub_go False False rx_blanks (\<lambda>m. '' '') 0 (Some (last (m_text ?m))) (m_after ?m)"
    by (rule sub_go_step [OF m]) (simp_all add: m_text_def m_after_def)
  then show ?thesis by (auto simp add: collapse_blanks_def m_text_def m_after_def)
qed

lemma blanks_ok_Cons:
  "blanks_ok (c # s) = (c \<noteq> TAB \<and> (c = CHR '' '' \<longrightarrow> s = [] \<or> hd s \<noteq> CHR '' '') \<and> blanks_ok s)"
  by (cases s) auto

lemma blanks_ok_hd: "blanks_ok s \<Longrightarrow> s \<noteq> [] \<Longrightarrow> hd s \<noteq> TAB"
  by (cases s) (auto simp add: blanks_ok_Cons)

lemma collapse_blanks_shape:
  "blanks_ok (collapse_blanks p s)
   \<and> (collapse_blanks p s = [] \<or> s = [] \<or> hd (collapse_blanks p s) = (if is_blank (hd s) then CHR '' '' else hd s))"
proof (induction "length s" arbitrary: s p rule: less_induct)
  case less
  show ?case
  proof (cases s)
    case Nil
    then show ?thesis by (simp add: collapse_blanks_Nil)
  next
    case (Cons c cs)
    show ?thesis
    proof (cases "is_blank c")
      case True
      obtain q where q: "collapse_blanks p (c # cs) = CHR '' '' # collapse_blanks q (dropWhile is_blank cs)"
        using collapse_blanks_run [OF True] by blast
      let ?r = "dropWhile is_blank cs"
      have len: "length ?r < length s" using Cons by (simp add: length_dropWhile_le le_imp_less_Suc)
      have ih: "blanks_ok (collapse_blanks q ?r)"
        and hd: "collapse_blanks q ?r = [] \<or> ?r = [] \<or> hd (collapse_blanks q ?r) = (if is_blank (hd ?r) then CHR '' '' else hd ?r)"
        using less [OF len, of q] by simp_all
      have r: "?r = [] \<or> \<not> is_blank (hd ?r)" by (metis hd_dropWhile)
      have "?r = [] \<Longrightarrow> collapse_blanks q ?r = []" by (simp only: collapse_blanks_Nil)
      then have "collapse_blanks q ?r = [] \<or> hd (collapse_blanks q ?r) \<noteq> CHR '' ''"
        using hd r by (auto simp add: is_blank_def)
      then show ?thesis using q ih True Cons by (auto simp add: blanks_ok_Cons)
    next
      case False
      have k: "collapse_blanks p (c # cs) = c # collapse_blanks (Some c) cs"
        using False by (rule collapse_blanks_keep)
      have "blanks_ok (collapse_blanks (Some c) cs)" using less [of cs "Some c"] Cons by simp
      then show ?thesis using k False Cons by (auto simp add: blanks_ok_Cons is_blank_def)
    qed
  qed
qed

lemma collapse_blanks_fixed: "blanks_ok s \<Longrightarrow> collapse_blanks p s = s"
proof (induction s arbitrary: p)
  case Nil
  then show ?case by (simp add: collapse_blanks_Nil)
next
  case (Cons c cs)
  have ok: "blanks_ok cs" using Cons.prems by (simp add: blanks_ok_Cons)
  show ?case
  proof (cases "is_blank c")
    case True
    then have c: "c = CHR '' ''" using Cons.prems by (auto simp add: is_blank_def blanks_ok_Cons)
    obtain q where q: "collapse_blanks p (c # cs) = CHR '' '' # collapse_blanks q (dropWhile is_blank cs)"
      using collapse_blanks_run [OF True] by blast
    have "cs = [] \<or> \<not> is_blank (hd cs)"
      using Cons.prems c blanks_ok_hd [OF ok] by (auto simp add: blanks_ok_Cons is_blank_def)
    then have "dropWhile is_blank cs = cs" by (cases cs) auto
    then show ?thesis using q c Cons.IH [OF ok] by simp
  next
    case False
    then show ?thesis using Cons.IH [OF ok] by (simp add: collapse_blanks_keep)
  qed
qed

lemma blanks_ok_append: "blanks_ok (a @ b) \<Longrightarrow> blanks_ok a \<and> blanks_ok b"
proof (induction a)
  case Nil
  then show ?case by simp
next
  case (Cons c a)
  then have "blanks_ok (a @ b)" by (simp add: blanks_ok_Cons)
  then have "blanks_ok a \<and> blanks_ok b" by (rule Cons.IH)
  moreover have "c \<noteq> TAB \<and> (c = CHR '' '' \<longrightarrow> a = [] \<or> hd a \<noteq> CHR '' '')"
    using Cons.prems by (cases a) (auto simp add: blanks_ok_Cons)
  ultimately show ?case by (simp add: blanks_ok_Cons)
qed

lemma blanks_ok_strip: "blanks_ok s \<Longrightarrow> blanks_ok (strip s)"
proof -
  assume ok: "blanks_ok s"
  obtain a b where "s = a @ strip s @ b" using strip_infix by blast
  then have "blanks_ok (a @ (strip s @ b))" using ok by simp
  then have "blanks_ok (strip s @ b)" using blanks_ok_append by blast
  then show ?thesis using blanks_ok_append by blast
qed

lemma rep_m_star_None:
  assumes "\<And>p q s g. k p s g = k q s g"
  shows "rep_m t 0 None p s g k = None \<Longrightarrow> s = a @ b \<Longrightarrow> \<forall>c \<in> set a. t c \<Longrightarrow> k q b g = None"
proof (induction s arbitrary: p a)
  case Nil
  then show ?case using assms [of p "[]" g q] by simp
next
  case (Cons c cs)
  show ?case
  proof (cases a)
    case Nil
    then have b: "b = c # cs" using Cons.prems(2) by simp
    have "k p (c # cs) g = None" using Cons.prems(1) by (auto split: if_splits option.splits)
    then show ?thesis using b assms [of p "c # cs" g q] by simp
  next
    case (Cons x xs)
    then have x: "x = c" "cs = xs @ b" "t c" "\<forall>c \<in> set xs. t c" using Cons.prems(2,3) by auto
    then have "rep_m t 0 None (Some c) cs g k = None"
      using Cons.prems(1) by (auto split: if_splits option.splits)
    then show ?thesis using Cons.IH x by blast
  qed
qed

lemma rep_m_star_Some:
  assumes "\<And>p q s g. k p s g = k q s g"
  shows "rep_m t 0 None p s g k = Some x \<Longrightarrow>
         \<exists>a b. s = a @ b \<and> (\<forall>c \<in> set a. t c) \<and> k q b g = Some x
           \<and> (\<forall>a' b'. s = a' @ b' \<and> (\<forall>c \<in> set a'. t c) \<and> length a < length a' \<longrightarrow> k q b' g = None)"
proof (induction s arbitrary: p)
  case Nil
  then have "k q [] g = Some x" using assms [of p "[]" g q] by simp
  then show ?case by auto
next
  case (Cons c cs)
  show ?case
  proof (cases "t c \<and> rep_m t 0 None (Some c) cs g k \<noteq> None")
    case True
    then have "rep_m t 0 None (Some c) cs g k = Some x" using Cons.prems by (auto split: option.splits)
    then obtain a b where ab: "cs = a @ b" "\<forall>c \<in> set a. t c" "k q b g = Some x"
      and mx: "\<forall>a' b'. cs = a' @ b' \<and> (\<forall>c \<in> set a'. t c) \<and> length a < length a' \<longrightarrow> k q b' g = None"
      using Cons.IH by blast
    have "\<forall>a' b'. c # cs = a' @ b' \<and> (\<forall>c \<in> set a'. t c) \<and> length (c # a) < length a' \<longrightarrow> k q b' g = None"
    proof (intro allI impI)
      fix a' b' assume h: "c # cs = a' @ b' \<and> (\<forall>c \<in> set a'. t c) \<and> length (c # a) < length a'"
      then obtain a'' where "a' = c # a''" by (cases a') auto
      then show "k q b' g = None" using h mx by auto
    qed
    then show ?thesis using ab True by (intro exI [of _ "c # a"] exI [of _ b]) auto
  next
    case False
    then have kx: "k p (c # cs) g = Some x" using Cons.prems by (auto split: option.splits if_splits)
    have "\<forall>a' b'. c # cs = a' @ b' \<and> (\<forall>c \<in> set a'. t c) \<and> length ([]::string) < length a' \<longrightarrow> k q b' g = None"
    proof (intro allI impI)
      fix a' b' assume h: "c # cs = a' @ b' \<and> (\<forall>c \<in> set a'. t c) \<and> length ([]::string) < length a'"
      then obtain a'' where a'': "a' = c # a''" by (cases a') auto
      then have "t c" using h by simp
      then have "rep_m t 0 None (Some c) cs g k = None" using False by simp
      then show "k q b' g = None"
        using rep_m_star_None [OF assms, where t = t and p = "Some c" and s = cs and g = g and a = a'' and b = b' and q = q]
          h a'' by auto
    qed
    then show ?thesis using kx assms [of p "c # cs" g q] by (intro exI [of _ "[]"] exI [of _ "c # cs"]) auto
  qed
qed

lemma is_space_LF: "is_space LF"
  by (simp add: is_space_def)

lemma lfc_Nil: "lfc [] = 0"
  by (simp add: lfc_def)

lemma lfc_Cons: "lfc (c # s) = (if is_space c then (if c = LF then 1 else 0) + lfc s else 0)"
  by (simp add: lfc_def)

lemma lfc_ws_append:
  "\<forall>c \<in> set a. is_space c \<Longrightarrow> lfc (a @ b) = length (filter (\<lambda>c. c = LF) a) + lfc b"
  by (induction a) (auto simp add: lfc_Cons)

lemma lfc_append_le: "lfc a \<le> lfc (a @ b)"
  by (induction a) (auto simp add: lfc_Cons lfc_Nil)

lemma lfc_pos_split:
  assumes "0 < lfc x"
  shows "\<exists>u v. x = u @ LF # v \<and> (\<forall>c \<in> set u. is_space c) \<and> LF \<notin> set u"
proof -
  have "LF \<in> set (takeWhile is_space x)"
    using assms by (auto simp add: lfc_def filter_empty_conv)
  then obtain u w where uw: "takeWhile is_space x = u @ LF # w" "LF \<notin> set u"
    by (meson split_list_first)
  have "x = takeWhile is_space x @ dropWhile is_space x" by simp
  then have x: "x = u @ LF # (w @ dropWhile is_space x)" using uw by simp
  have "\<forall>c \<in> set (takeWhile is_space x). is_space c" by (meson set_takeWhileD)
  then have "\<forall>c \<in> set u. is_space c" using uw by simp
  then show ?thesis using x uw by blast
qed

lemma atom_ws: "atom_ok False False (Cls [WS]) = is_space"
  by (auto simp add: fun_eq_iff in_class_def)

lemma atom_lf: "atom_ok False False (Lit LF) = (\<lambda>c. c = LF)"
  by (auto simp add: fun_eq_iff)

lemma lf_run_eq:
  "lf_run p s g = (if s \<noteq> [] \<and> hd s = LF then Some (dropWhile (\<lambda>c. c = LF) s, g) else None)"
proof -
  have "(1 \<le> length (takeWhile (\<lambda>c. c = LF) s)) = (s \<noteq> [] \<and> hd s = LF)"
    by (cases s) auto
  then show ?thesis by (simp add: lf_run_def atom_lf rep_m_accepting)
qed

lemma lf_run_prev: "lf_run p s g = lf_run q s g"
  by (simp add: lf_run_eq)

lemma second_lf_eq:
  "second_lf p s g =
     (case s of [] \<Rightarrow> None
      | c # cs \<Rightarrow> if c = LF then rep_m is_space 0 None (Some c) cs g lf_run else None)"
proof -
  have "(\<lambda>p' s' g'. rep_m (\<lambda>c. c = LF) 1 None p' s' g' accept) = lf_run"
    by (simp add: fun_eq_iff lf_run_def atom_lf)
  then show ?thesis by (simp add: second_lf_def atom_ws atom_lf split: list.splits)
qed

lemma second_lf_prev: "second_lf p s g = second_lf q s g"
  by (simp add: second_lf_eq)

lemma blank_lines_rmatch:
  "rmatch False False rx_blank_lines p s g accept =
     (case s of [] \<Rightarrow> None
      | c # cs \<Rightarrow> if c = LF then rep_m is_space 0 None (Some c) cs g second_lf else None)"
proof -
  have "(\<lambda>p' s' g'. rmatch False False (Seq (One (Lit LF)) (Seq (Star (Cls [WS])) (Plus (Lit LF)))) p' s' g' accept)
          = second_lf"
    by (simp add: fun_eq_iff second_lf_def)
  then show ?thesis by (simp add: rx_blank_lines_def atom_ws atom_lf split: list.splits)
qed

lemma blank_lines_sound:
  assumes "match_at False False rx_blank_lines bef p s = Some m"
  shows "s = m_text m @ m_after m \<and> m_text m \<noteq> [] \<and> hd s = LF \<and> 3 \<le> lfc s \<and> lfc (m_after m) = 0"
proof -
  obtain s' g where r: "rmatch False False rx_blank_lines p s [] accept = Some (s', g)"
    and m: "m = (rev bef, take (length s - length s') s, s', g)"
    using assms by (auto simp add: match_at_def split: option.splits)
  obtain s1 where s: "s = LF # s1" and r1: "rep_m is_space 0 None (Some LF) s1 [] second_lf = Some (s', g)"
    using r by (auto simp add: blank_lines_rmatch split: list.splits if_splits)
  obtain a1 b1 where 1: "s1 = a1 @ b1" "\<forall>c \<in> set a1. is_space c" "second_lf None b1 [] = Some (s', g)"
    using rep_m_star_Some [where k = second_lf and q = None, OF second_lf_prev r1] by blast
  obtain s2 where b1: "b1 = LF # s2" and r2: "rep_m is_space 0 None (Some LF) s2 [] lf_run = Some (s', g)"
    using 1(3) by (auto simp add: second_lf_eq split: list.splits if_splits)
  obtain a2 b2 where 2: "s2 = a2 @ b2" "\<forall>c \<in> set a2. is_space c" "lf_run None b2 [] = Some (s', g)"
    and mx: "\<forall>a' b'. s2 = a' @ b' \<and> (\<forall>c \<in> set a'. is_space c) \<and> length a2 < length a' \<longrightarrow> lf_run None b' [] = None"
    using rep_m_star_Some [where k = lf_run and q = None, OF lf_run_prev r2] by blast
  obtain s3 where b2: "b2 = LF # s3" and s': "s' = dropWhile (\<lambda>c. c = LF) s3"
    using 2(3) by (cases b2) (auto simp add: lf_run_eq split: if_splits)
  have z: "lfc s3 = 0"
  proof (rule ccontr)
    assume "lfc s3 \<noteq> 0"
    then obtain u v where uv: "s3 = u @ LF # v" "\<forall>c \<in> set u. is_space c"
      using lfc_pos_split [of s3] by auto
    have "s2 = (a2 @ LF # u) @ LF # v" using 2(1) b2 uv by simp
    moreover have "\<forall>c \<in> set (a2 @ LF # u). is_space c" using 2(2) uv is_space_LF by auto
    moreover have "length a2 < length (a2 @ LF # u)" by simp
    ultimately have "lf_run None (LF # v) [] = None" using mx by blast
    then show False by (simp add: lf_run_eq)
  qed
  have "s3 = [] \<or> hd s3 \<noteq> LF"
    using z is_space_LF by (cases s3) (auto simp add: lfc_Cons)
  then have s'3: "s' = s3" using s' by (cases s3) auto
  have whole: "s = (LF # a1 @ LF # a2 @ [LF]) @ s3" using s 1(1) b1 2(1) b2 by simp
  have "length s - length s3 = length (LF # a1 @ LF # a2 @ [LF])"
    by (subst whole) simp
  then have "take (length s - length s3) s = take (length (LF # a1 @ LF # a2 @ [LF])) s"
    by (rule arg_cong)
  also have "\<dots> = take (length (LF # a1 @ LF # a2 @ [LF])) ((LF # a1 @ LF # a2 @ [LF]) @ s3)"
    using whole by (rule arg_cong)
  also have "\<dots> = LF # a1 @ LF # a2 @ [LF]"
    by (simp only: take_all_iff append_eq_conv_conj take_append diff_self_eq_0 take0 append_Nil2 order_refl)
  finally have "take (length s - length s3) s = LF # a1 @ LF # a2 @ [LF]" .
  then have mt: "m_text m = LF # a1 @ LF # a2 @ [LF]" and ma: "m_after m = s3"
    using m s'3 by (simp_all add: m_text_def m_after_def)
  have "\<forall>c \<in> set (LF # a1 @ LF # a2 @ [LF]). is_space c" using 1(2) 2(2) is_space_LF by auto
  then have "lfc s = length (filter (\<lambda>c. c = LF) (LF # a1 @ LF # a2 @ [LF])) + lfc s3"
    using whole lfc_ws_append by metis
  then have "3 \<le> lfc s" by simp
  then show ?thesis using whole mt ma z s by simp
qed

lemma blank_lines_complete:
  assumes "s = LF # s1" and "3 \<le> lfc s"
  shows "match_at False False rx_blank_lines bef p s \<noteq> None"
proof -
  have "2 \<le> lfc s1" using assms is_space_LF by (simp add: lfc_Cons)
  then obtain u1 v1 where 1: "s1 = u1 @ LF # v1" "\<forall>c \<in> set u1. is_space c" "LF \<notin> set u1"
    using lfc_pos_split [of s1] by auto
  have "\<forall>c \<in> set (u1 @ [LF]). is_space c" using 1(2) is_space_LF by auto
  then have "lfc ((u1 @ [LF]) @ v1) = length (filter (\<lambda>c. c = LF) (u1 @ [LF])) + lfc v1"
    by (rule lfc_ws_append)
  moreover have "filter (\<lambda>c. c = LF) u1 = []" using 1(3) by (auto simp add: filter_empty_conv)
  ultimately have "lfc s1 = 1 + lfc v1" using 1(1) by simp
  then have "0 < lfc v1" using \<open>2 \<le> lfc s1\<close> by simp
  then obtain u2 v2 where 2: "v1 = u2 @ LF # v2" "\<forall>c \<in> set u2. is_space c"
    using lfc_pos_split [of v1] by auto
  have k2: "lf_run None (LF # v2) [] \<noteq> None" by (simp add: lf_run_eq)
  have "rep_m is_space 0 None (Some LF) v1 [] lf_run \<noteq> None"
    using rep_m_star_None [where k = lf_run and t = is_space and p = "Some LF" and s = v1 and g = "[]"
        and a = u2 and b = "LF # v2" and q = None, OF lf_run_prev] 2 k2 by blast
  then have k1: "second_lf None (LF # v1) [] \<noteq> None" by (simp add: second_lf_eq)
  have "rep_m is_space 0 None (Some LF) s1 [] second_lf \<noteq> None"
    using rep_m_star_None [where k = second_lf and t = is_space and p = "Some LF" and s = s1 and g = "[]"
        and a = u1 and b = "LF # v1" and q = None, OF second_lf_prev] 1 k1 by blast
  then show ?thesis using assms(1) by (auto simp add: match_at_def blank_lines_rmatch split: option.splits)
qed

lemma blank_lines_no_match: "lfc s \<le> 2 \<Longrightarrow> match_at False False rx_blank_lines bef p s = None"
proof (rule ccontr)
  assume a: "lfc s \<le> 2" and "match_at False False rx_blank_lines bef p s \<noteq> None"
  then obtain m where "match_at False False rx_blank_lines bef p s = Some m" by auto
  then have "3 \<le> lfc s" using blank_lines_sound by blast
  then show False using a by simp
qed

lemma squeeze_lines_Nil: "squeeze_lines p [] = []"
  by (simp add: squeeze_lines_def blank_lines_no_match lfc_Nil)

lemma squeeze_lines_keep:
  "match_at False False rx_blank_lines [] p (c # cs) = None
     \<Longrightarrow> squeeze_lines p (c # cs) = c # squeeze_lines (Some c) cs"
  by (simp add: squeeze_lines_def)

lemma squeeze_lines_match:
  assumes "match_at False False rx_blank_lines [] p s = Some m"
  shows "\<exists>q. squeeze_lines p s = LF # LF # squeeze_lines q (m_after m)"
proof -
  have s: "s = m_text m @ m_after m" and t: "m_text m \<noteq> []"
    using blank_lines_sound [OF assms] by simp_all
  have "sub_go False False rx_blank_lines (\<lambda>m. [LF, LF]) 0 p s
          = [LF, LF] @ sub_go False False rx_blank_lines (\<lambda>m. [LF, LF]) 0 (Some (last (m_text m))) (m_after m)"
    using assms t s by (rule sub_go_step)
  then show ?thesis by (auto simp add: squeeze_lines_def)
qed

lemma lf_ok_lfc: "lf_ok s \<Longrightarrow> lfc s \<le> 2"
  by (cases s) (simp_all add: lfc_Nil)

lemma squeeze_lines_shape:
  "lfc (squeeze_lines p s) \<le> lfc s
   \<and> lf_ok (squeeze_lines p s)
   \<and> (s \<noteq> [] \<longrightarrow> squeeze_lines p s \<noteq> [] \<and> hd (squeeze_lines p s) = hd s)
   \<and> (blanks_ok s \<longrightarrow> blanks_ok (squeeze_lines p s))"
proof (induction "length s" arbitrary: s p rule: less_induct)
  case less
  show ?case
  proof (cases s)
    case Nil
    then show ?thesis by (simp add: squeeze_lines_Nil)
  next
    case (Cons c cs)
    show ?thesis
    proof (cases "match_at False False rx_blank_lines [] p s")
      case None
      let ?r = "squeeze_lines (Some c) cs"
      have k: "squeeze_lines p s = c # ?r"
        using None Cons by (simp add: squeeze_lines_keep)
      have ih: "lfc ?r \<le> lfc cs" "lf_ok ?r" "cs \<noteq> [] \<longrightarrow> ?r \<noteq> [] \<and> hd ?r = hd cs"
        "blanks_ok cs \<longrightarrow> blanks_ok ?r"
        using less [of cs "Some c"] Cons by simp_all
      have 1: "lfc (c # ?r) \<le> lfc (c # cs)" using ih(1) by (simp add: lfc_Cons)
      have 2: "lfc (c # ?r) \<le> 2"
      proof (cases "c = LF")
        case True
        have "lfc (c # cs) \<le> 2"
        proof (rule ccontr)
          assume "\<not> lfc (c # cs) \<le> 2"
          then have "3 \<le> lfc (c # cs)" by simp
          then have "match_at False False rx_blank_lines [] p (c # cs) \<noteq> None"
            using True blank_lines_complete [of "c # cs" cs] by simp
          then show False using None Cons by simp
        qed
        then show ?thesis using 1 by simp
      next
        case False
        then show ?thesis using lf_ok_lfc [OF ih(2)] by (simp add: lfc_Cons)
      qed
      have 3: "blanks_ok (c # ?r)" if ok: "blanks_ok (c # cs)"
      proof -
        have c: "c \<noteq> TAB" "c = CHR '' '' \<longrightarrow> cs = [] \<or> hd cs \<noteq> CHR '' ''" "blanks_ok cs"
          using ok by (simp_all add: blanks_ok_Cons)
        have "cs = [] \<longrightarrow> ?r = []" by (simp add: squeeze_lines_Nil)
        then have "c = CHR '' '' \<longrightarrow> ?r = [] \<or> hd ?r \<noteq> CHR '' ''" using c(2) ih(3) by auto
        then show ?thesis using c ih(4) by (simp add: blanks_ok_Cons)
      qed
      show ?thesis using k 1 2 3 ih(2) Cons by simp
    next
      case (Some m)
      obtain q where k: "squeeze_lines p s = LF # LF # squeeze_lines q (m_after m)"
        using squeeze_lines_match [OF Some] by blast
      let ?r = "squeeze_lines q (m_after m)"
      have all: "s = m_text m @ m_after m \<and> m_text m \<noteq> [] \<and> hd s = LF \<and> 3 \<le> lfc s \<and> lfc (m_after m) = 0"
        using Some by (rule blank_lines_sound)
      have snd: "s = m_text m @ m_after m" "m_text m \<noteq> []" "hd s = LF" "3 \<le> lfc s" "lfc (m_after m) = 0"
        using all by blast+
      have "length (m_text m) \<noteq> 0" using snd(2) by simp
      moreover have "length s = length (m_text m) + length (m_after m)"
        by (subst snd(1)) simp
      ultimately have len: "length (m_after m) < length s" by simp
      have ih: "lfc ?r \<le> lfc (m_after m)" "lf_ok ?r" "blanks_ok (m_after m) \<longrightarrow> blanks_ok ?r"
        using less [OF len, of q] by simp_all
      have z: "lfc ?r = 0" using ih(1) snd(5) by simp
      have 1: "lfc (LF # LF # ?r) = 2" "lfc (LF # ?r) = 1"
        using z is_space_LF by (simp_all add: lfc_Cons)
      have 3: "blanks_ok (LF # LF # ?r)" if ok: "blanks_ok s"
      proof -
        have "blanks_ok (m_text m @ m_after m)" using ok snd(1) by simp
        then have "blanks_ok (m_after m)" using blanks_ok_append by blast
        then show ?thesis using ih(3) by (simp add: blanks_ok_Cons)
      qed
      show ?thesis using k 1 3 ih(2) snd(3,4) Cons by simp
    qed
  qed
qed

lemma squeeze_lines_fixed: "lf_ok s \<Longrightarrow> squeeze_lines p s = s"
proof (induction s arbitrary: p)
  case Nil
  then show ?case by (simp add: squeeze_lines_Nil)
next
  case (Cons c cs)
  have "match_at False False rx_blank_lines [] p (c # cs) = None"
    using Cons.prems by (simp add: blank_lines_no_match)
  then have "squeeze_lines p (c # cs) = c # squeeze_lines (Some c) cs"
    by (rule squeeze_lines_keep)
  then show ?case using Cons by simp
qed

lemma lf_ok_append: "lf_ok (a @ b) \<Longrightarrow> lf_ok a \<and> lf_ok b"
proof (induction a)
  case Nil
  then show ?case by simp
next
  case (Cons c a)
  have "lfc (c # a) \<le> lfc ((c # a) @ b)" by (rule lfc_append_le)
  then show ?case using Cons by simp
qed

lemma lf_ok_strip: "lf_ok s \<Longrightarrow> lf_ok (strip s)"
proof -
  assume ok: "lf_ok s"
  obtain a b where "s = a @ strip s @ b" using strip_infix by blast
  then have "lf_ok (a @ (strip s @ b))" using ok by simp
  then have "lf_ok (strip s @ b)" using lf_ok_append by blast
  then show ?thesis using lf_ok_append by blast
qed

lemma whitespace_normal_eq:
  "whitespace_normal t = strip (squeeze_lines None (collapse_blanks None t))"
  by (simp add: whitespace_normal_def re_sub_def squeeze_lines_def collapse_blanks_def)

lemma whitespace_normal_fixed:
  assumes "blanks_ok w" and "lf_ok w" and "strip w = w"
  shows "whitespace_normal w = w"
  using assms by (simp add: whitespace_normal_eq collapse_blanks_fixed squeeze_lines_fixed)

lemma whitespace_normal_shape:
  "blanks_ok (whitespace_normal t) \<and> lf_ok (whitespace_normal t)
   \<and> strip (whitespace_normal t) = whitespace_normal t"
proof -
  let ?b = "collapse_blanks None t"
  let ?l = "squeeze_lines None ?b"
  have "blanks_ok ?b" using collapse_blanks_shape by blast
  then have "blanks_ok ?l" using squeeze_lines_shape by blast
  then have 1: "blanks_ok (strip ?l)" by (rule blanks_ok_strip)
  have "lf_ok ?l" using squeeze_lines_shape by blast
  then have 2: "lf_ok (strip ?l)" by (rule lf_ok_strip)
  show ?thesis using 1 2 by (simp add: whitespace_normal_eq strip_strip)
qed

lemma whitespace_normal_separators:
  assumes "set t \<inter> separators = {}"
  shows "set (whitespace_normal t) \<inter> separators = {}"
proof -
  let ?b = "re_sub False False rx_blanks (\<lambda>m. '' '') t"
  let ?l = "re_sub False False rx_blank_lines (\<lambda>m. [LF, LF]) ?b"
  have "set ?b \<subseteq> set t \<union> set '' ''" unfolding re_sub_def by (rule set_sub_go)
  moreover have "set ?l \<subseteq> set ?b \<union> set [LF, LF]" unfolding re_sub_def by (rule set_sub_go)
  moreover have "set (strip ?l) \<subseteq> set ?l" by (rule set_strip)
  ultimately have "set (whitespace_normal t) \<subseteq> set t \<union> {CHR '' '', LF}"
    unfolding whitespace_normal_def by auto
  moreover have "{CHR '' '', LF} \<inter> separators = {}" by (simp add: separators_def)
  ultimately show ?thesis using assms by blast
qed

lemma rep_m_split:
  "rep_m t mn mx p s g k = Some x \<Longrightarrow>
     \<exists>a b q. s = a @ b \<and> (\<forall>c \<in> set a. t c) \<and> mn \<le> length a \<and> k q b g = Some x"
proof (induction s arbitrary: mn mx p)
  case Nil
  then show ?case by (auto split: if_splits)
next
  case (Cons c cs)
  show ?case
  proof (cases "mx = Some 0 \<or> \<not> t c")
    case True
    then have "mn = 0" "k p (c # cs) g = Some x" using Cons.prems by (auto split: if_splits)
    then have "c # cs = [] @ (c # cs) \<and> (\<forall>c \<in> set []. t c) \<and> mn \<le> length ([] :: string)
        \<and> k p (c # cs) g = Some x" by simp
    then show ?thesis by blast
  next
    case False
    show ?thesis
    proof (cases "rep_m t (mn - 1) (map_option (\<lambda>n. n - 1) mx) (Some c) cs g k")
      case None
      then have "mn = 0" "k p (c # cs) g = Some x" using Cons.prems False by (auto split: if_splits)
      then have "c # cs = [] @ (c # cs) \<and> (\<forall>c \<in> set []. t c) \<and> mn \<le> length ([] :: string)
          \<and> k p (c # cs) g = Some x" by simp
      then show ?thesis by blast
    next
      case (Some r)
      then have "r = x" using Cons.prems False by simp
      then have "rep_m t (mn - 1) (map_option (\<lambda>n. n - 1) mx) (Some c) cs g k = Some x"
        using Some by simp
      from Cons.IH [OF this]
      obtain a b q where ab: "cs = a @ b" "\<forall>c \<in> set a. t c" "mn - 1 \<le> length a" "k q b g = Some x"
        by blast
      have "c # cs = (c # a) @ b \<and> (\<forall>x \<in> set (c # a). t x) \<and> mn \<le> length (c # a) \<and> k q b g = Some x"
        using ab False by auto
      then show ?thesis by blast
    qed
  qed
qed

lemma rmatch_split:
  "rmatch ic ds r p s g k = Some x \<Longrightarrow> \<exists>a b q h. s = a @ b \<and> k q b h = Some x"
proof (induction r arbitrary: p s g k)
  case Eps
  then have "s = [] @ s \<and> k p s g = Some x" by simp
  then show ?case by blast
next
  case (One a)
  then obtain c cs where s: "s = c # cs" and k: "k (Some c) cs g = Some x"
    by (cases s) (auto split: if_splits)
  then have "s = [c] @ cs \<and> k (Some c) cs g = Some x" by simp
  then show ?case by blast
next
  case Bol
  then have "s = [] @ s \<and> k p s g = Some x" by (simp split: if_splits)
  then show ?case by blast
next
  case Eol
  then have "s = [] @ s \<and> k p s g = Some x" by (simp split: if_splits)
  then show ?case by blast
next
  case WordB
  then have "s = [] @ s \<and> k p s g = Some x" by (simp split: if_splits)
  then show ?case by blast
next
  case (Seq r1 r2)
  from Seq.prems have "rmatch ic ds r1 p s g (\<lambda>p' s' g'. rmatch ic ds r2 p' s' g' k) = Some x" by simp
  from Seq.IH(1) [OF this]
  obtain a b q h where 1: "s = a @ b" "rmatch ic ds r2 q b h k = Some x"
    by blast
  from Seq.IH(2) [OF 1(2)]
  obtain a' b' q' h' where 2: "b = a' @ b'" "k q' b' h' = Some x"
    by blast
  have "s = (a @ a') @ b' \<and> k q' b' h' = Some x" using 1 2 by simp
  then show ?case by blast
next
  case (Alt r1 r2)
  show ?case
  proof (cases "rmatch ic ds r1 p s g k")
    case None
    then have "rmatch ic ds r2 p s g k = Some x" using Alt.prems by simp
    then show ?thesis by (rule Alt.IH(2))
  next
    case (Some y)
    then have "rmatch ic ds r1 p s g k = Some x" using Alt.prems by simp
    then show ?thesis by (rule Alt.IH(1))
  qed
next
  case (Rep mn mx a)
  then have "rep_m (atom_ok ic ds a) mn mx p s g k = Some x" by simp
  from rep_m_split [OF this]
  obtain u v q where "s = u @ v" "k q v g = Some x" by blast
  then show ?case by blast
next
  case (Grp n r)
  from Grp.prems have "rmatch ic ds r p s g (\<lambda>p' s' g'. k p' s' ((n, take (length s - length s') s) # g')) = Some x"
    by simp
  from Grp.IH [OF this]
  obtain a b q h where "s = a @ b" "k q b ((n, take (length s - length b) s) # h) = Some x"
    by blast
  then show ?case by blast
qed

lemma match_at_split:
  assumes "match_at ic ds r bef p s = Some m"
  shows "s = m_text m @ m_after m"
proof -
  obtain s' g where r: "rmatch ic ds r p s [] (\<lambda>p' s' g'. Some (s', g')) = Some (s', g)"
    and m: "m = (rev bef, take (length s - length s') s, s', g)"
    using assms by (auto simp add: match_at_def split: option.splits)
  from rmatch_split [OF r]
  obtain a b where "s = a @ b" "b = s'" by auto
  then show ?thesis using m by (simp add: m_text_def m_after_def)
qed

text \<open>A relation between a text and the result of a substitution.\<close>

lemma sub_go_rel:
  assumes ne: "\<And>p s m. match_at ic ds r [] p s = Some m \<Longrightarrow> m_text m \<noteq> []"
    and nil: "Q [] []"
    and copy: "\<And>c s out. Q s out \<Longrightarrow> Q (c # s) (c # out)"
    and rep: "\<And>p s m out. match_at ic ds r [] p s = Some m \<Longrightarrow> Q (m_after m) out \<Longrightarrow> Q s (f m @ out)"
  shows "Q s (sub_go ic ds r f 0 p s)"
proof (induction "length s" arbitrary: s p rule: less_induct)
  case less
  show ?case
  proof (cases "match_at ic ds r [] p s")
    case None
    show ?thesis
    proof (cases s)
      case Nil
      then show ?thesis using None nil by simp
    next
      case (Cons c cs)
      have "Q cs (sub_go ic ds r f 0 (Some c) cs)" using less [of cs "Some c"] Cons by simp
      then show ?thesis using None Cons copy by simp
    qed
  next
    case (Some m)
    have t: "m_text m \<noteq> []" using Some by (rule ne)
    have s: "s = m_text m @ m_after m" using Some by (rule match_at_split)
    have "length s = length (m_text m) + length (m_after m)" by (subst s) simp
    then have "length (m_after m) < length s" using t by simp
    then have "Q (m_after m) (sub_go ic ds r f 0 (Some (last (m_text m))) (m_after m))"
      by (rule less)
    then have "Q s (f m @ sub_go ic ds r f 0 (Some (last (m_text m))) (m_after m))"
      using Some rep by blast
    then show ?thesis using sub_go_step [OF Some t s] by simp
  qed
qed

lemma replace_go_skip: "replace_go old new (length a) (a @ b) = replace_go old new 0 b"
  by (induction a) auto

lemma startswith_split: "startswith s old \<Longrightarrow> \<exists>b. s = old @ b"
  by (induction s old rule: startswith.induct) auto

lemma replace_go_rel:
  assumes ne: "old \<noteq> []"
    and nil: "Q [] []"
    and copy: "\<And>c s out. Q s out \<Longrightarrow> Q (c # s) (c # out)"
    and rep: "\<And>s out. Q s out \<Longrightarrow> Q (old @ s) (new @ out)"
  shows "Q s (replace_go old new 0 s)"
proof (induction "length s" arbitrary: s rule: less_induct)
  case less
  show ?case
  proof (cases s)
    case Nil
    then show ?thesis using nil by simp
  next
    case (Cons c cs)
    show ?thesis
    proof (cases "startswith s old")
      case True
      then obtain b where b: "s = old @ b" using startswith_split by blast
      obtain o' where o: "old = c # o'" using b Cons ne by (cases old) auto
      then have cs: "cs = o' @ b" using b Cons by simp
      have "length b < length s" using b ne by simp
      then have "Q b (replace_go old new 0 b)" by (rule less)
      then have "Q s (new @ replace_go old new 0 b)" using rep b by blast
      moreover have "replace_go old new 0 s = new @ replace_go old new (length o') (o' @ b)"
        using True Cons cs o by simp
      ultimately show ?thesis by (simp add: replace_go_skip)
    next
      case False
      have "Q cs (replace_go old new 0 cs)" using less [of cs] Cons by simp
      then show ?thesis using False Cons copy by simp
    qed
  qed
qed

lemma visible_Nil: "visible [] = []"
  by (simp add: visible_def)

lemma visible_append: "visible (a @ b) = visible a @ visible b"
  by (simp add: visible_def)

lemma take_prefix: "s = x @ y \<Longrightarrow> take (length s - length y) s = x"
  by simp

lemma visible_Cons: "visible (c # s) = (if is_space c then visible s else c # visible s)"
  by (simp add: visible_def)

lemma visible_spaces: "\<forall>c \<in> set a. is_space c \<Longrightarrow> visible a = []"
  by (simp add: visible_def)

lemma shrinks_refl: "shrinks s s"
  by (simp add: shrinks_def)

lemma shrinks_trans: "shrinks a b \<Longrightarrow> shrinks b c \<Longrightarrow> shrinks a c"
  by (auto simp add: shrinks_def)

lemma shrinks_Cons: "shrinks s out \<Longrightarrow> shrinks (c # s) (c # out)"
  by (auto simp add: shrinks_def visible_Cons)

lemma shrinks_less:
  "length (visible new) < length (visible old) \<Longrightarrow> shrinks s out \<Longrightarrow> shrinks (old @ s) (new @ out)"
  by (auto simp add: shrinks_def visible_append)

lemma replace_shrinks:
  assumes "old \<noteq> []" and "length (visible new) < length (visible old)"
  shows "shrinks s (replace old new s)"
proof -
  have "shrinks s (replace_go old new 0 s)"
  proof (rule replace_go_rel [OF assms(1)])
    show "shrinks [] []" by (rule shrinks_refl)
    show "\<And>c s out. shrinks s out \<Longrightarrow> shrinks (c # s) (c # out)" by (rule shrinks_Cons)
    show "\<And>s out. shrinks s out \<Longrightarrow> shrinks (old @ s) (new @ out)"
      using assms(2) by (rule shrinks_less)
  qed
  then show ?thesis using assms(1) by (simp add: replace_def)
qed

lemma replacements_shrink: "shrinks t (foldl (\<lambda>t (old, new). replace old new t) t replacements)"
proof -
  have "shrinks a (foldl (\<lambda>t (old, new). replace old new t) a rs)"
    if "\<forall>(old, new) \<in> set rs. old \<noteq> [] \<and> length (visible new) < length (visible old)" for rs a
    using that
  proof (induction rs arbitrary: a)
    case Nil
    then show ?case by (simp add: shrinks_refl)
  next
    case (Cons r rs)
    obtain old new where r: "r = (old, new)" by (cases r)
    have 1: "shrinks a (replace old new a)" using Cons.prems r by (simp add: replace_shrinks)
    have 2: "shrinks (replace old new a) (foldl (\<lambda>t (old, new). replace old new t) (replace old new a) rs)"
      using Cons.IH Cons.prems by simp
    show ?case using shrinks_trans [OF 1 2] r by simp
  qed
  moreover have "\<forall>(old, new) \<in> set replacements. old \<noteq> [] \<and> length (visible new) < length (visible old)"
    by (simp add: replacements_def visible_def is_space_def)
  ultimately show ?thesis by blast
qed

lemma sub_go_shrinks:
  assumes "\<And>p s m. match_at ic ds r [] p s = Some m \<Longrightarrow> length (visible (f m)) < length (visible (m_text m))"
  shows "shrinks s (sub_go ic ds r f 0 p s)"
proof (rule sub_go_rel)
  show "m_text m \<noteq> []" if "match_at ic ds r [] p s = Some m" for p s m
    using assms [OF that] by (auto simp add: visible_Nil)
  show "shrinks [] []" by (rule shrinks_refl)
  show "\<And>c s out. shrinks s out \<Longrightarrow> shrinks (c # s) (c # out)" by (rule shrinks_Cons)
  show "shrinks s (f m @ out)" if "match_at ic ds r [] p s = Some m" "shrinks (m_after m) out" for p s m out
  proof -
    have "shrinks (m_text m @ m_after m) (f m @ out)"
      using assms [OF that(1)] that(2) by (rule shrinks_less)
    then show ?thesis using match_at_split [OF that(1)] by simp
  qed
qed

lemma atom_digit: "atom_ok False False (Cls [D09]) = is_digit"
  by (auto simp add: fun_eq_iff in_class_def)

lemma atom_slash: "atom_ok False False (Lit CHR ''/'') = (\<lambda>c. c = CHR ''/'')"
  by (auto simp add: fun_eq_iff)

lemma digit_not_space: "is_digit c \<Longrightarrow> \<not> is_space c"
  by (auto simp add: is_digit_def is_space_def)

lemma digit_backslash_match:
  assumes "match_at False False rx_digit_backslash bef p s = Some m"
  shows "\<exists>c a. is_digit c \<and> (\<forall>x \<in> set a. is_space x) \<and> m_text m = c # BSL # a @ ''/'' \<and> grp m 1 = [c]"
proof -
  obtain s' g where r: "rmatch False False rx_digit_backslash p s [] (\<lambda>p' s' g'. Some (s', g')) = Some (s', g)"
    and m: "m = (rev bef, take (length s - length s') s, s', g)"
    using assms by (auto simp add: match_at_def split: option.splits)
  obtain c cs where s: "s = c # BSL # cs" and c: "is_digit c"
    and r1: "rep_m is_space 0 None (Some BSL) cs [(1, [c])]
               (\<lambda>p' s' g'. rmatch False False (One (Lit CHR ''/'')) p' s' g' (\<lambda>p' s' g'. Some (s', g')))
             = Some (s', g)"
    using r by (auto simp add: rx_digit_backslash_def atom_digit atom_ws split: list.splits if_splits)
  from rep_m_split [OF r1]
  obtain a b q where ab: "cs = a @ b" "\<forall>x \<in> set a. is_space x"
    "rmatch False False (One (Lit CHR ''/'')) q b [(1, [c])] (\<lambda>p' s' g'. Some (s', g')) = Some (s', g)"
    by blast
  have b: "b = CHR ''/'' # s'" and g: "g = [(1, [c])]"
    using ab(3) by (auto split: list.splits if_splits)
  have whole: "s = (c # BSL # a @ ''/'') @ s'" using s ab(1) b by simp
  have "take (length s - length s') s = c # BSL # a @ ''/''" using whole by (rule take_prefix)
  then have "m_text m = c # BSL # a @ ''/''" using m by (simp add: m_text_def)
  moreover have "grp m 1 = [c]" using m g by (simp add: grp_def group_def)
  ultimately show ?thesis using c ab(2) by blast
qed

lemma apostrophe_match:
  assumes "match_at False False rx_apostrophe bef p s = Some m"
  shows "\<exists>d a b. (\<forall>x \<in> set d. is_digit x) \<and> (\<forall>x \<in> set a. is_space x) \<and> (\<forall>x \<in> set b. is_space x)
           \<and> m_text m = d @ a @ [APO] @ b @ ''/'' \<and> grp m 1 = d"
proof -
  obtain s' g where r: "rmatch False False rx_apostrophe p s [] (\<lambda>p' s' g'. Some (s', g')) = Some (s', g)"
    and m: "m = (rev bef, take (length s - length s') s, s', g)"
    using assms by (auto simp add: match_at_def split: option.splits)
  let ?k3 = "\<lambda>p' s' g'. rmatch False False (One (Lit CHR ''/'')) p' s' g' (\<lambda>p' s' g'. Some (s', g'))"
  let ?k2 = "\<lambda>p' s' g'. rmatch False False (One (Lit APO)) p' s' g'
               (\<lambda>p' s' g'. rep_m is_space 0 None p' s' g' ?k3)"
  let ?k1 = "\<lambda>p' s' g'. rep_m is_space 0 None p' s' ((1, take (length s - length s') s) # g') ?k2"
  have r0: "rep_m is_digit 2 (Some 3) p s [] ?k1 = Some (s', g)"
    using r by (simp add: rx_apostrophe_def atom_digit atom_ws)
  from rep_m_split [OF r0]
  obtain d b0 q0 where 0: "s = d @ b0" "\<forall>x \<in> set d. is_digit x"
    "rep_m is_space 0 None q0 b0 [(1, take (length s - length b0) s)] ?k2 = Some (s', g)"
    by blast
  have cap: "take (length s - length b0) s = d" using 0(1) by simp
  from rep_m_split [OF 0(3)]
  obtain a b1 q1 where 1: "b0 = a @ b1" "\<forall>x \<in> set a. is_space x"
    "?k2 q1 b1 [(1, take (length s - length b0) s)] = Some (s', g)"
    by blast
  obtain b2 where b1: "b1 = APO # b2"
    and 2: "rep_m is_space 0 None (Some APO) b2 [(1, take (length s - length b0) s)] ?k3 = Some (s', g)"
    using 1(3) by (auto split: list.splits if_splits)
  from rep_m_split [OF 2]
  obtain b b3 q3 where 3: "b2 = b @ b3" "\<forall>x \<in> set b. is_space x"
    "?k3 q3 b3 [(1, take (length s - length b0) s)] = Some (s', g)"
    by blast
  have b3: "b3 = CHR ''/'' # s'" and g: "g = [(1, d)]"
    using 3(3) cap by (auto split: list.splits if_splits)
  have whole: "s = (d @ a @ [APO] @ b @ ''/'') @ s'" using 0(1) 1(1) b1 3(1) b3 by simp
  have "take (length s - length s') s = d @ a @ [APO] @ b @ ''/''" using whole by (rule take_prefix)
  then have "m_text m = d @ a @ [APO] @ b @ ''/''" using m by (simp add: m_text_def)
  moreover have "grp m 1 = d" using m g by (simp add: grp_def group_def)
  ultimately show ?thesis using 0(2) 1(2) 3(2) by blast
qed

lemma visible_digits: "\<forall>x \<in> set d. is_digit x \<Longrightarrow> visible d = d"
  by (induction d) (auto simp add: visible_Nil visible_Cons digit_not_space)

lemma digit_backslash_shrinks:
  "shrinks s (re_sub False False rx_digit_backslash (\<lambda>m. grp m 1 @ ''/'') s)"
  unfolding re_sub_def
proof (rule sub_go_shrinks)
  fix p s m assume "match_at False False rx_digit_backslash [] p s = Some m"
  then obtain c a where "is_digit c" "\<forall>x \<in> set a. is_space x" "m_text m = c # BSL # a @ ''/''" "grp m 1 = [c]"
    using digit_backslash_match by blast
  then show "length (visible (grp m 1 @ ''/'')) < length (visible (m_text m))"
    by (simp add: visible_Cons visible_append visible_spaces digit_not_space is_space_def)
qed

lemma apostrophe_shrinks:
  "shrinks s (re_sub False False rx_apostrophe (\<lambda>m. grp m 1 @ '' /'') s)"
  unfolding re_sub_def
proof (rule sub_go_shrinks)
  fix p s m assume "match_at False False rx_apostrophe [] p s = Some m"
  then obtain d a b where "\<forall>x \<in> set d. is_digit x" "\<forall>x \<in> set a. is_space x" "\<forall>x \<in> set b. is_space x"
    "m_text m = d @ a @ [APO] @ b @ ''/''" "grp m 1 = d"
    using apostrophe_match by blast
  then show "length (visible (grp m 1 @ '' /'')) < length (visible (m_text m))"
    by (simp add: visible_Cons visible_append visible_spaces visible_digits is_space_def)
qed

lemma replace_single: "replace [a] [b] s = map (\<lambda>c. if c = a then b else c) s"
proof -
  have "replace_go [a] [b] 0 s = map (\<lambda>c. if c = a then b else c) s"
    by (induction s) auto
  then show ?thesis by (simp add: replace_def)
qed

lemma fix_nomor_same: "list_all2 same_visible t (fix_nomor (bef, t, aft, g))"
proof -
  have "same_visible c (if (if c = CHR ''O'' then CHR ''0'' else c) = CHR ''l'' then CHR ''1''
                         else (if c = CHR ''O'' then CHR ''0'' else c))" for c
    by (simp add: same_visible_def is_space_def)
  then show ?thesis
    by (simp add: fix_nomor_def m_text_def replace_single list_all2_map2 list_all2_same)
qed

lemma same_visible_length:
  "list_all2 same_visible s out \<Longrightarrow> length (visible out) = length (visible s)"
  by (induction rule: list_all2_induct) (auto simp add: visible_Nil visible_Cons same_visible_def)

lemma same_visible_eq:
  "list_all2 same_visible s out \<Longrightarrow> visible out = visible s \<Longrightarrow> out = s"
proof (induction rule: list_all2_induct)
  case Nil
  then show ?case by simp
next
  case (Cons a s b out)
  show ?case
  proof (cases "is_space a")
    case True
    then have "b = a" using Cons.hyps(1) by (auto simp add: same_visible_def)
    then show ?thesis using Cons True by (simp add: visible_Cons)
  next
    case False
    then have "\<not> is_space b" using Cons.hyps(1) by (auto simp add: same_visible_def)
    then show ?thesis using Cons False by (simp add: visible_Cons)
  qed
qed

lemma fix_nomor_nonempty:
  assumes "match_at True False rx_fix_nomor bef p s = Some m"
  shows "m_text m \<noteq> []"
proof -
  obtain s' g where r: "rmatch True False rx_fix_nomor p s [] (\<lambda>p' s' g'. Some (s', g')) = Some (s', g)"
    and m: "m = (rev bef, take (length s - length s') s, s', g)"
    using assms by (auto simp add: match_at_def split: option.splits)
  let ?rest = "Seq (One (Cls [C CHR ''-'', C CHR ''/'', C CHR ''.'']))
                 (Seq (Rep 2 None (Cls [AZ, D09, C CHR ''O'', C CHR ''l'', C CHR ''.'', C CHR ''-'', C CHR ''/'']))
                    WordB)"
  have r0: "rep_m (atom_ok True False (Cls [AZ, D09, C CHR ''O'', C CHR ''l''])) 1 (Some 8) p s []
              (\<lambda>p' s' g'. rmatch True False ?rest p' s' g' (\<lambda>p' s' g'. Some (s', g'))) = Some (s', g)"
    using r by (simp add: rx_fix_nomor_def split: if_splits)
  from rep_m_split [OF r0]
  obtain a b q where 0: "s = a @ b" "1 \<le> length a"
    "rmatch True False ?rest q b [] (\<lambda>p' s' g'. Some (s', g')) = Some (s', g)"
    by blast
  from rmatch_split [OF 0(3)]
  obtain a' b' where 1: "b = a' @ b'" "b' = s'" by auto
  have "s = (a @ a') @ s'" using 0(1) 1 by simp
  then have "take (length s - length s') s = a @ a'" by (rule take_prefix)
  then show ?thesis using m 0(2) by (auto simp add: m_text_def)
qed

lemma fix_nomor_stage:
  "list_all2 same_visible s (re_sub True False rx_fix_nomor fix_nomor s)"
  unfolding re_sub_def
proof (rule sub_go_rel)
  show "m_text m \<noteq> []" if "match_at True False rx_fix_nomor [] p s = Some m" for p s m
    using that by (rule fix_nomor_nonempty)
  show "list_all2 same_visible [] []" by simp
  show "\<And>c s out. list_all2 same_visible s out \<Longrightarrow> list_all2 same_visible (c # s) (c # out)"
    by (simp add: same_visible_def)
  show "list_all2 same_visible s (fix_nomor m @ out)"
    if "match_at True False rx_fix_nomor [] p s = Some m" "list_all2 same_visible (m_after m) out"
    for p s m out
  proof -
    obtain bef t aft g where m: "m = (bef, t, aft, g)" by (cases m) auto
    have "list_all2 same_visible (m_text m) (fix_nomor m)"
      using fix_nomor_same [of t bef aft g] m by (simp add: m_text_def)
    then have "list_all2 same_visible (m_text m @ m_after m) (fix_nomor m @ out)"
      using that(2) by (rule list_all2_appendI)
    then show ?thesis using match_at_split [OF that(1)] by simp
  qed
qed

text \<open>The normalisation of white space keeps the visible characters.\<close>

lemma blank_is_space: "is_blank c \<Longrightarrow> is_space c"
  by (auto simp add: is_blank_def is_space_def)

lemma sub_go_visible:
  assumes ne: "\<And>p s m. match_at ic ds r [] p s = Some m \<Longrightarrow> m_text m \<noteq> []"
    and sp: "\<And>p s m. match_at ic ds r [] p s = Some m \<Longrightarrow> visible (f m) = [] \<and> visible (m_text m) = []"
  shows "visible (sub_go ic ds r f 0 p s) = visible s"
proof (rule sub_go_rel [where Q = "\<lambda>s out. visible out = visible s"])
  show "\<And>p s m. match_at ic ds r [] p s = Some m \<Longrightarrow> m_text m \<noteq> []" by (rule ne)
  show "visible [] = visible []" by simp
  show "\<And>c s out. visible out = visible s \<Longrightarrow> visible (c # out) = visible (c # s)"
    by (simp add: visible_Cons)
  show "visible (f m @ out) = visible s"
    if "match_at ic ds r [] p s = Some m" "visible out = visible (m_after m)" for p s m out
  proof -
    have "visible (f m @ out) = visible (m_text m @ m_after m)"
      using sp [OF that(1)] that(2) by (simp add: visible_append)
    then show ?thesis using match_at_split [OF that(1)] by simp
  qed
qed

lemma collapse_blanks_visible: "visible (collapse_blanks p s) = visible s"
  unfolding collapse_blanks_def
proof (rule sub_go_visible)
  fix p s m assume m: "match_at False False rx_blanks [] p s = Some m"
  then have t: "takeWhile is_blank s \<noteq> []" "m_text m = takeWhile is_blank s"
    by (auto simp add: match_blanks m_text_def split: if_splits)
  show "m_text m \<noteq> []" using t by simp
  have "\<forall>c \<in> set (takeWhile is_blank s). is_space c"
    using blank_is_space by (meson set_takeWhileD)
  then show "visible '' '' = [] \<and> visible (m_text m) = []"
    using t by (simp add: visible_spaces visible_Cons visible_Nil is_space_def)
qed

lemma blank_lines_spaces:
  assumes "match_at False False rx_blank_lines bef p s = Some m"
  shows "\<forall>c \<in> set (m_text m). is_space c"
proof -
  obtain s' g where r: "rmatch False False rx_blank_lines p s [] accept = Some (s', g)"
    and m: "m = (rev bef, take (length s - length s') s, s', g)"
    using assms by (auto simp add: match_at_def split: option.splits)
  obtain s1 where s: "s = LF # s1" and r1: "rep_m is_space 0 None (Some LF) s1 [] second_lf = Some (s', g)"
    using r by (auto simp add: blank_lines_rmatch split: list.splits if_splits)
  from rep_m_split [OF r1]
  obtain a1 b1 q1 where 1: "s1 = a1 @ b1" "\<forall>c \<in> set a1. is_space c" "second_lf q1 b1 [] = Some (s', g)"
    by blast
  obtain s2 where b1: "b1 = LF # s2" and r2: "rep_m is_space 0 None (Some LF) s2 [] lf_run = Some (s', g)"
    using 1(3) by (auto simp add: second_lf_eq split: list.splits if_splits)
  from rep_m_split [OF r2]
  obtain a2 b2 q2 where 2: "s2 = a2 @ b2" "\<forall>c \<in> set a2. is_space c" "lf_run q2 b2 [] = Some (s', g)"
    by blast
  have s': "s' = dropWhile (\<lambda>c. c = LF) b2" using 2(3) by (auto simp add: lf_run_eq split: if_splits)
  have "b2 = takeWhile (\<lambda>c. c = LF) b2 @ s'" using s' by simp
  then have whole: "s = (LF # a1 @ LF # a2 @ takeWhile (\<lambda>c. c = LF) b2) @ s'"
    using s 1(1) b1 2(1) by simp
  then have "take (length s - length s') s = LF # a1 @ LF # a2 @ takeWhile (\<lambda>c. c = LF) b2"
    by (rule take_prefix)
  then have t: "m_text m = LF # a1 @ LF # a2 @ takeWhile (\<lambda>c. c = LF) b2"
    using m by (simp add: m_text_def)
  have "\<forall>c \<in> set (takeWhile (\<lambda>c. c = LF) b2). is_space c"
    using is_space_LF by (metis (mono_tags, lifting) set_takeWhileD)
  then show ?thesis using t 1(2) 2(2) is_space_LF by auto
qed

lemma squeeze_lines_visible: "visible (squeeze_lines p s) = visible s"
  unfolding squeeze_lines_def
proof (rule sub_go_visible)
  fix p s m assume m: "match_at False False rx_blank_lines [] p s = Some m"
  show "m_text m \<noteq> []" using blank_lines_sound [OF m] by simp
  show "visible [LF, LF] = [] \<and> visible (m_text m) = []"
    using blank_lines_spaces [OF m] is_space_LF by (simp add: visible_spaces)
qed

lemma visible_dropWhile: "visible (dropWhile is_space s) = visible s"
  by (induction s) (auto simp add: visible_Cons)

lemma visible_rev: "visible (rev s) = rev (visible s)"
  by (simp add: visible_def rev_filter)

lemma strip_visible: "visible (strip s) = visible s"
  by (simp add: strip_def visible_rev visible_dropWhile)

lemma whitespace_normal_visible: "visible (whitespace_normal t) = visible t"
  by (simp add: whitespace_normal_eq strip_visible squeeze_lines_visible collapse_blanks_visible)

text \<open>The two halves of the normaliser.\<close>

lemma clean_text_parts: "clean_text t = whitespace_normal (repairs t)"
proof (cases "t = []")
  case True
  have "repairs [] = []"
    by (simp add: repairs_def Let_def replacements_def replace_def re_sub_def match_at_def
        rx_digit_backslash_def rx_apostrophe_def rx_fix_nomor_def word_before_def word_after_def)
  moreover have "whitespace_normal [] = []"
    by (simp add: whitespace_normal_eq collapse_blanks_Nil squeeze_lines_Nil strip_def)
  ultimately show ?thesis using True by (simp add: clean_text_def)
next
  case False
  then show ?thesis by (simp add: clean_text_def repairs_def whitespace_normal_def Let_def)
qed

lemma repairs_shrink:
  "\<exists>u. shrinks t u \<and> list_all2 same_visible u (repairs t)"
proof -
  let ?a = "foldl (\<lambda>t (old, new). replace old new t) t replacements"
  let ?b = "re_sub False False rx_digit_backslash (\<lambda>m. grp m 1 @ ''/'') ?a"
  let ?c = "re_sub False False rx_apostrophe (\<lambda>m. grp m 1 @ '' /'') ?b"
  have "shrinks t ?a" by (rule replacements_shrink)
  moreover have "shrinks ?a ?b" by (rule digit_backslash_shrinks)
  moreover have "shrinks ?b ?c" by (rule apostrophe_shrinks)
  ultimately have "shrinks t ?c" using shrinks_trans by blast
  moreover have "list_all2 same_visible ?c (repairs t)"
    unfolding repairs_def Let_def by (rule fix_nomor_stage)
  ultimately show ?thesis by blast
qed

lemma repairs_visible_fixed: "visible (repairs t) = visible t \<Longrightarrow> repairs t = t"
proof -
  assume v: "visible (repairs t) = visible t"
  obtain u where u: "shrinks t u" "list_all2 same_visible u (repairs t)"
    using repairs_shrink by blast
  have "length (visible u) = length (visible (repairs t))"
    using same_visible_length [OF u(2)] by simp
  then have "length (visible u) = length (visible t)" using v by simp
  then have "u = t" using u(1) by (simp add: shrinks_def)
  then show ?thesis using same_visible_eq [OF u(2)] v by simp
qed

text \<open>
  Claim C5, as the code has it. The normaliser is the OCR repairs followed by the
  normalisation of white space. The normalisation of white space leaves every normalised
  text as it is, so a second pass can change a normalised text only by a repair: the
  normaliser is idempotent at a text exactly when the OCR repairs leave the normalised
  text unchanged. In particular it is idempotent at every text without slash, hyphen and
  dot, where no repair applies at all.
\<close>

theorem clean_text_idempotent_iff_repaired:
  "clean_text t = whitespace_normal (repairs t)
   \<and> whitespace_normal (clean_text t) = clean_text t
   \<and> (clean_text (clean_text t) = clean_text t \<longleftrightarrow> repairs (clean_text t) = clean_text t)
   \<and> (set t \<inter> separators = {} \<longrightarrow> clean_text (clean_text t) = clean_text t)"
proof -
  let ?w = "clean_text t"
  have w: "whitespace_normal ?w = ?w"
    using whitespace_normal_shape [of "repairs t"]
    by (simp add: clean_text_parts [of t] whitespace_normal_fixed)
  have 1: "clean_text ?w = ?w" if "repairs ?w = ?w"
    using that w by (simp add: clean_text_parts [of ?w])
  have 2: "repairs ?w = ?w" if "clean_text ?w = ?w"
  proof -
    have "visible (whitespace_normal (repairs ?w)) = visible ?w"
      using that by (simp add: clean_text_parts [of ?w])
    then have "visible (repairs ?w) = visible ?w" by (simp add: whitespace_normal_visible)
    then show ?thesis by (rule repairs_visible_fixed)
  qed
  have 3: "clean_text ?w = ?w" if a: "set t \<inter> separators = {}"
  proof -
    have "?w = whitespace_normal t" using a by (rule clean_text_without_separators)
    moreover have "set (whitespace_normal t) \<inter> separators = {}"
      using a by (rule whitespace_normal_separators)
    ultimately have "set ?w \<inter> separators = {}" by simp
    then have "clean_text ?w = whitespace_normal ?w" by (rule clean_text_without_separators)
    then show ?thesis using w by simp
  qed
  show ?thesis using w 1 2 3 clean_text_parts [of t] by blast
qed

lemma example_note_clean:
  "clean_text example_note = ''Daftar hadir'' @ [LF, LF] @ ''rapat warga''"
  by code_simp

lemma nomor_line_clean: "clean_text nomor_line = ''Nomor : 451/KS.02.00''"
  by code_simp

lemma nomor_line_repaired: "repairs ''Nomor : 451/KS.02.00'' = ''Nomor : 451/KS.02.00''"
  by code_simp

theorem clean_text_idempotent_iff_repaired_witness:
  "clean_text nomor_line = ''Nomor : 451/KS.02.00''
   \<and> clean_text nomor_line \<noteq> nomor_line
   \<and> repairs (clean_text nomor_line) = clean_text nomor_line
   \<and> clean_text (clean_text nomor_line) = clean_text nomor_line
   \<and> set example_note \<inter> separators = {}
   \<and> clean_text example_note = ''Daftar hadir'' @ [LF, LF] @ ''rapat warga''
   \<and> clean_text (clean_text example_note) = clean_text example_note"
proof -
  have r: "repairs (clean_text nomor_line) = clean_text nomor_line"
    by (simp only: nomor_line_clean nomor_line_repaired)
  have n: "clean_text nomor_line \<noteq> nomor_line"
    by (simp add: nomor_line_clean) (simp add: nomor_line_def)
  have s: "set example_note \<inter> separators = {}"
    by (simp add: example_note_def separators_def)
  from clean_text_idempotent_iff_repaired [of nomor_line] r
  have 1: "clean_text (clean_text nomor_line) = clean_text nomor_line" by blast
  from clean_text_idempotent_iff_repaired [of example_note] s
  have 2: "clean_text (clean_text example_note) = clean_text example_note" by blast
  show ?thesis using r n s 1 2 nomor_line_clean example_note_clean by simp
qed

text \<open>
  Claim C5 fails as stated: each literal replacement runs once over the text, without
  looking at its own output. In \<^verbatim>\<open>12//-2024\<close> the replacement of \<^verbatim>\<open>/-\<close> by
  \<^verbatim>\<open>-\<close> leaves \<^verbatim>\<open>12/-2024\<close>, to which the same repair applies again: a second
  pass turns it into \<^verbatim>\<open>12-2024\<close>.
\<close>

theorem clean_text_not_idempotent:
  "clean_text ''12//-2024'' = ''12/-2024''
   \<and> repairs ''12/-2024'' = ''12-2024''
   \<and> clean_text (clean_text ''12//-2024'') = ''12-2024''
   \<and> clean_text (clean_text ''12//-2024'') \<noteq> clean_text ''12//-2024''"
  by code_simp

end
